theory Spec2Isabelle
  imports Complex_Main "HOL-Library.Word"
begin

section \<open>JavaScript numbers\<close>

text \<open>
  Every number of the scripts is a JavaScript Number, an IEEE-754 binary64 value. The
  model computes on \<^typ>\<open>real\<close> and rounds the result of every arithmetic operation
  with the rounding of an arithmetic \<open>A\<close> that each numeric function takes as its first
  argument:
  \<^item> mode \<open>Exact\<close> rounds nothing: the scripts read as exact real arithmetic;
  \<^item> mode \<open>Binary64\<close> rounds to the nearest number with a 53-bit significand, ties to
    even, as the hardware does. The exponent is not bounded, so overflow to infinity,
    subnormal numbers, signed zeros and NaN are outside the model: it is the arithmetic
    of the scripts as long as no operation overflows or underflows.
  The library functions \<open>Math.pow\<close> and \<open>Math.log\<close>, which ECMAScript leaves
  implementation-approximated, are fields of the arithmetic. A division by zero gives
  Infinity or NaN in the scripts and 0 in HOL: no theorem below divides by zero under
  its hypotheses.
\<close>

datatype rounding = Exact | Binary64

definition round_even :: "real \<Rightarrow> int" where
  "round_even x =
     (let f = \<lfloor>x\<rfloor> in
      if x - of_int f < 1 / 2 then f
      else if x - of_int f > 1 / 2 then f + 1
      else if even f then f else f + 1)"

definition binade :: "real \<Rightarrow> int" where
  "binade x = \<lfloor>log 2 \<bar>x\<bar>\<rfloor>"

definition rnd64 :: "real \<Rightarrow> real" where
  "rnd64 x =
     (if x = 0 then 0
      else of_int (round_even (x / 2 powi (binade x - 52))) * 2 powi (binade x - 52))"

record arith =
  mode :: rounding
  Math_pow :: "real \<Rightarrow> real \<Rightarrow> real"
  Math_log :: "real \<Rightarrow> real"

definition fl :: "arith \<Rightarrow> real \<Rightarrow> real" where
  "fl A x = (case mode A of Exact \<Rightarrow> x | Binary64 \<Rightarrow> rnd64 x)"

text \<open>A decimal literal of the source denotes the nearest Number.\<close>

definition lit :: "arith \<Rightarrow> real \<Rightarrow> real" where
  "lit A x = fl A x"

definition fadd :: "arith \<Rightarrow> real \<Rightarrow> real \<Rightarrow> real" where
  "fadd A x y = fl A (x + y)"

definition fsub :: "arith \<Rightarrow> real \<Rightarrow> real \<Rightarrow> real" where
  "fsub A x y = fl A (x - y)"

definition fmul :: "arith \<Rightarrow> real \<Rightarrow> real \<Rightarrow> real" where
  "fmul A x y = fl A (x * y)"

definition fdiv :: "arith \<Rightarrow> real \<Rightarrow> real \<Rightarrow> real" where
  "fdiv A x y = fl A (x / y)"

text \<open>
  The two arithmetics the claims are settled on: exact real arithmetic, and binary64
  with a correctly rounded \<open>Math.pow\<close> and \<open>Math.log\<close>.
\<close>

definition exact :: arith where
  "exact = \<lparr>mode = Exact, Math_pow = (\<lambda>x y. x powr y), Math_log = ln\<rparr>"

definition binary64 :: arith where
  "binary64 = \<lparr>mode = Binary64, Math_pow = (\<lambda>x y. rnd64 (x powr y)),
                Math_log = (\<lambda>x. rnd64 (ln x))\<rparr>"

section \<open>The shared generator (utils.js)\<close>

text \<open>
  \<^verbatim>\<open>let _seed = 98765;
  function rand() {
      _seed = (Math.imul(_seed, 1664525) + 1013904223) | 0;
      return (_seed >>> 0) / 4294967296;
  }
  function resetSeed() { _seed = 98765; }\<close>
  \<open>Math.imul\<close> multiplies modulo \<open>2^32\<close>, the addition is exact (both summands are
  below \<open>2^31\<close> in size) and \<open>| 0\<close> reduces modulo \<open>2^32\<close> again: the seed is a
  32-bit word, read as unsigned by \<open>>>> 0\<close>.
\<close>

type_synonym seed = "32 word"

definition rand :: "arith \<Rightarrow> seed \<Rightarrow> real \<times> seed" where
  "rand A s =
     (let s' = s * 1664525 + 1013904223
      in (fdiv A (real (unat s')) 4294967296, s'))"

definition resetSeed :: "seed \<Rightarrow> seed" where
  "resetSeed s = 98765"

section \<open>Lazy canvas rendering (utils.js)\<close>

text \<open>
  \<^verbatim>\<open>function lazyDraw(canvasId, drawFn) {
      const cv = document.getElementById(canvasId);
      if (!cv) return;
      if (!("IntersectionObserver" in window)) { drawFn(cv); return; }
      new IntersectionObserver(function(entries, obs) {
          if (entries[0].isIntersecting) { obs.disconnect(); drawFn(cv); }
      }, { rootMargin: "150px 0px" }).observe(cv);
  }\<close>
  The page is the state: the document's elements by id, whether the window has
  \<open>IntersectionObserver\<close>, the observers registered so far with their canvas and draw
  function, and everything a draw function can change (\<open>world\<close>). A draw function
  returns the new world or throws.
\<close>

record ('cv, 'e, 'w) page =
  getElementById :: "string \<Rightarrow> 'cv option"
  hasIntersectionObserver :: bool
  observers :: "('cv \<times> ('cv \<Rightarrow> 'w \<Rightarrow> 'e + 'w)) list"
  world :: 'w

definition lazyDraw ::
  "string \<Rightarrow> ('cv \<Rightarrow> 'w \<Rightarrow> 'e + 'w) \<Rightarrow> ('cv, 'e, 'w) page \<Rightarrow> 'e + ('cv, 'e, 'w) page" where
  "lazyDraw canvasId drawFn pg =
     (case getElementById pg canvasId of
        None \<Rightarrow> Inr pg
      | Some cv \<Rightarrow>
          if \<not> hasIntersectionObserver pg then
            (case drawFn cv (world pg) of
               Inl e \<Rightarrow> Inl e
             | Inr w \<Rightarrow> Inr (pg\<lparr>world := w\<rparr>))
          else Inr (pg\<lparr>observers := observers pg @ [(cv, drawFn)]\<rparr>))"

text \<open>The observer's callback, run by the browser for the \<open>i\<close>-th registered observer.\<close>

definition observerCallback ::
  "nat \<Rightarrow> bool \<Rightarrow> ('cv, 'e, 'w) page \<Rightarrow> 'e + ('cv, 'e, 'w) page" where
  "observerCallback i isIntersecting pg =
     (if i < length (observers pg) \<and> isIntersecting then
        (case observers pg ! i of (cv, drawFn) \<Rightarrow>
           (case drawFn cv (world pg) of
              Inl e \<Rightarrow> Inl e
            | Inr w \<Rightarrow>
                Inr (pg\<lparr>observers := take i (observers pg) @ drop (Suc i) (observers pg),
                         world := w\<rparr>)))
      else Inr pg)"

section \<open>Figure 1: the KMR chain (bundle.js)\<close>

text \<open>
  The constants of the figure's closure: \<^verbatim>\<open>const N = 50;\<close> and
  \<^verbatim>\<open>const H1 = 2.0, H2 = 1.2, nu = 1.0, gamma = 1.5;\<close>
\<close>

definition kmr_N :: int where "kmr_N = 50"
definition kmr_H1 :: "arith \<Rightarrow> real" where "kmr_H1 A = lit A 2.0"
definition kmr_H2 :: "arith \<Rightarrow> real" where "kmr_H2 A = lit A 1.2"
definition kmr_nu :: "arith \<Rightarrow> real" where "kmr_nu A = lit A 1.0"
definition kmr_gamma :: "arith \<Rightarrow> real" where "kmr_gamma A = lit A 1.5"

text \<open>
  \<^verbatim>\<open>function uVal(k, isP1) {
      const xi = k / N;
      if (isP1) return H1 + nu * Math.pow(xi, gamma);
      return H2 + nu * Math.pow(1 - xi, gamma);
  }\<close>
\<close>

definition uVal :: "arith \<Rightarrow> int \<Rightarrow> bool \<Rightarrow> real" where
  "uVal A k isP1 =
     (let xi = fdiv A (of_int k) (of_int kmr_N) in
      if isP1 then fadd A (kmr_H1 A) (fmul A (kmr_nu A) (Math_pow A xi (kmr_gamma A)))
      else fadd A (kmr_H2 A) (fmul A (kmr_nu A) (Math_pow A (fsub A 1 xi) (kmr_gamma A))))"

text \<open>
  The state of the loop of \<open>runKMR\<close>: the generator's seed, the count \<open>k\<close> and the
  histogram. \<open>hist[k]++\<close> on an index outside the array would store NaN in a new
  property; the model stops there with \<open>None\<close>.
\<close>

type_synonym kmr_state = "seed \<times> int \<times> int list"

definition hist_incr :: "int list \<Rightarrow> int \<Rightarrow> int list option" where
  "hist_incr hist k =
     (if 0 \<le> k \<and> nat k < length hist then Some (hist[nat k := hist ! nat k + 1])
      else None)"

text \<open>
  The update of \<open>k\<close> in one iteration:
  \<^verbatim>\<open>const u1 = uVal(k, true);
  const u2 = uVal(k, false);
  if (rand() < eps) {
      const coinP1 = rand() < 0.5;
      const agentOnP1 = rand() < (k / N);
      if (agentOnP1 && !coinP1 && k > 0) k--;
      else if (!agentOnP1 && coinP1 && k < N) k++;
  } else {
      const agentOnP1 = rand() < (k / N);
      if (agentOnP1) { if (u2 > u1 && k > 0) k--; }
      else { if (u1 > u2 && k < N) k++; }
  }\<close>
\<close>

definition kmrMove :: "arith \<Rightarrow> real \<Rightarrow> seed \<times> int \<Rightarrow> seed \<times> int" where
  "kmrMove A eps sk =
     (case sk of (s, k) \<Rightarrow>
      let u1 = uVal A k True;
          u2 = uVal A k False;
          (r0, s0) = rand A s
      in if r0 < eps then
           (let (r1, s1) = rand A s0;
                coinP1 = (r1 < lit A 0.5);
                (r2, s2) = rand A s1;
                agentOnP1 = (r2 < fdiv A (of_int k) (of_int kmr_N))
            in if agentOnP1 \<and> \<not> coinP1 \<and> k > 0 then (s2, k - 1)
               else if \<not> agentOnP1 \<and> coinP1 \<and> k < kmr_N then (s2, k + 1)
               else (s2, k))
         else
           (let (r1, s1) = rand A s0;
                agentOnP1 = (r1 < fdiv A (of_int k) (of_int kmr_N))
            in if agentOnP1 then (if u2 > u1 \<and> k > 0 then (s1, k - 1) else (s1, k))
               else (if u1 > u2 \<and> k < kmr_N then (s1, k + 1) else (s1, k))))"

text \<open>The invariant of the loop: \<open>k\<close> is an index of the histogram, whose entries are counts.\<close>

definition kmr_inv :: "kmr_state \<Rightarrow> bool" where
  "kmr_inv st = (case st of (s, k, hist) \<Rightarrow>
     0 \<le> k \<and> k \<le> kmr_N \<and> length hist = 51 \<and> list_all (\<lambda>c. 0 \<le> c) hist)"

text \<open>One iteration at time \<open>t\<close>: the move, then \<^verbatim>\<open>if (t >= burnin) hist[k]++;\<close>\<close>

definition kmrIter :: "arith \<Rightarrow> real \<Rightarrow> nat \<Rightarrow> nat \<Rightarrow> kmr_state \<Rightarrow> kmr_state option" where
  "kmrIter A eps burnin t st =
     (case st of (s, k, hist) \<Rightarrow>
      (case kmrMove A eps (s, k) of (s', k') \<Rightarrow>
         if t \<ge> burnin then
           (case hist_incr hist k' of None \<Rightarrow> None | Some hist' \<Rightarrow> Some (s', k', hist'))
         else Some (s', k', hist)))"

text \<open>\<^verbatim>\<open>for (let t = 0; t < T; t++) { ... }\<close>, from time \<open>t\<close> on.\<close>

function kmrLoop ::
  "arith \<Rightarrow> real \<Rightarrow> nat \<Rightarrow> nat \<Rightarrow> nat \<Rightarrow> kmr_state \<Rightarrow> kmr_state option" where
  "kmrLoop A eps burnin T t st =
     (if t < T then
        (case kmrIter A eps burnin t st of
           None \<Rightarrow> None
         | Some st' \<Rightarrow> kmrLoop A eps burnin T (t + 1) st')
      else Some st)"
  by pat_completeness auto
termination
  by (relation "measure (\<lambda>(A, eps, burnin, T, t, st). T - t)") auto

text \<open>
  \<^verbatim>\<open>function runKMR(eps, T) {
      resetSeed();
      let k = Math.floor(N / 2);
      const hist = new Array(N + 1).fill(0);
      const burnin = Math.floor(T * 0.25);
      for (...) {...}
      return hist;
  }\<close>
  The number of steps \<open>T\<close> and the counter \<open>t\<close> are natural numbers (a Number counts
  exactly below \<open>2^53\<close>). \<open>kmrInit\<close> is the state before the loop, \<open>kmrAfter\<close> the
  state after the first \<open>j\<close> iterations; \<open>runKMR\<close> takes the seed it finds and returns the
  histogram with the seed it leaves.
\<close>

definition kmrBurnin :: "arith \<Rightarrow> nat \<Rightarrow> nat" where
  "kmrBurnin A T = nat \<lfloor>fmul A (real T) (lit A 0.25)\<rfloor>"

definition kmrInit :: "arith \<Rightarrow> seed \<Rightarrow> kmr_state" where
  "kmrInit A s =
     (resetSeed s, \<lfloor>fdiv A (of_int kmr_N) 2\<rfloor>, replicate (nat (kmr_N + 1)) 0)"

definition kmrAfter :: "arith \<Rightarrow> real \<Rightarrow> nat \<Rightarrow> seed \<Rightarrow> nat \<Rightarrow> kmr_state option" where
  "kmrAfter A eps T s j = kmrLoop A eps (kmrBurnin A T) j 0 (kmrInit A s)"

definition runKMR :: "arith \<Rightarrow> real \<Rightarrow> nat \<Rightarrow> seed \<Rightarrow> (int list \<times> seed) option" where
  "runKMR A eps T s =
     (case kmrLoop A eps (kmrBurnin A T) T 0 (kmrInit A s) of
        None \<Rightarrow> None
      | Some (s', k, hist) \<Rightarrow> Some (hist, s'))"

section \<open>Figure 2: the separatrix (sim2-basin.js)\<close>

text \<open>
  \<^verbatim>\<open>function g(x, gamma) {
      return Math.pow(1 - x, gamma) - Math.pow(x, gamma);
  }\<close>
\<close>

definition g :: "arith \<Rightarrow> real \<Rightarrow> real \<Rightarrow> real" where
  "g A x gamma = fsub A (Math_pow A (fsub A 1 x) gamma) (Math_pow A x gamma)"

text \<open>
  \<^verbatim>\<open>function findSep(deltaH, nu, gamma) {
      if (deltaH >= nu) return 0;
      let lo = 0.001, hi = 0.499;
      for (let i = 0; i < 60; i++) {
          const mid = (lo + hi) / 2;
          if (nu * g(mid, gamma) > deltaH) lo = mid;
          else hi = mid;
      }
      return (lo + hi) / 2;
  }\<close>
  \<open>findSepLoop\<close> runs the remaining \<open>n\<close> iterations of the loop on the pair \<open>(lo, hi)\<close>.
\<close>

fun findSepLoop :: "arith \<Rightarrow> real \<Rightarrow> real \<Rightarrow> real \<Rightarrow> nat \<Rightarrow> real \<times> real \<Rightarrow> real \<times> real" where
  "findSepLoop A deltaH nu gamma 0 (lo, hi) = (lo, hi)"
| "findSepLoop A deltaH nu gamma (Suc n) (lo, hi) =
     (let mid = fdiv A (fadd A lo hi) 2 in
      if fmul A nu (g A mid gamma) > deltaH
      then findSepLoop A deltaH nu gamma n (mid, hi)
      else findSepLoop A deltaH nu gamma n (lo, mid))"

definition findSep :: "arith \<Rightarrow> real \<Rightarrow> real \<Rightarrow> real \<Rightarrow> real" where
  "findSep A deltaH nu gamma =
     (if deltaH \<ge> nu then 0
      else (case findSepLoop A deltaH nu gamma 60 (lit A 0.001, lit A 0.499) of
              (lo, hi) \<Rightarrow> fdiv A (fadd A lo hi) 2))"

section \<open>Figure 6: the multi-platform replicator update (bundle.js)\<close>

text \<open>
  The body of the deterministic loop of \<open>monteCarloChart\<close>:
  \<^verbatim>\<open>const u = xDet.map((xi, i) => Hvals[i] + nu * Math.pow(xi, gamma));
  const ubar = xDet.reduce((s, xi, i) => s + xi * u[i], 0);
  const dx = xDet.map((xi, i) => xi * (u[i] - ubar));
  xDet = xDet.map((xi, i) => Math.max(1e-4, xi + dx[i] * dt));
  const sum = xDet.reduce((s, v) => s + v, 0);
  xDet = xDet.map(v => v / sum);\<close>
  The body of the loop of \<open>simulatePath\<close> is the same with a noise term,
  \<^verbatim>\<open>x = x.map((xi, i) => Math.max(1e-4, xi + dx[i] * dt + noise[i]));\<close>
  The model takes \<open>Hvals\<close>, \<open>nu\<close>, \<open>gamma\<close> and \<open>dt\<close> (constants of the closure) and the
  noise vector as arguments. Where the share vector is longer than \<open>Hvals\<close> the source
  reads \<open>undefined\<close> and computes NaN; the model stops there with \<open>None\<close>.
\<close>

definition fitness :: "arith \<Rightarrow> real list \<Rightarrow> real \<Rightarrow> real \<Rightarrow> real list \<Rightarrow> real list" where
  "fitness A Hvals nu gamma x =
     map (\<lambda>(xi, Hi). fadd A Hi (fmul A nu (Math_pow A xi gamma))) (zip x Hvals)"

definition meanFitness :: "arith \<Rightarrow> real list \<Rightarrow> real list \<Rightarrow> real" where
  "meanFitness A x u = foldl (\<lambda>s (xi, ui). fadd A s (fmul A xi ui)) 0 (zip x u)"

definition renormalize :: "arith \<Rightarrow> real list \<Rightarrow> real list" where
  "renormalize A x = (let sum = foldl (fadd A) 0 x in map (\<lambda>v. fdiv A v sum) x)"

definition detStep ::
  "arith \<Rightarrow> real list \<Rightarrow> real \<Rightarrow> real \<Rightarrow> real \<Rightarrow> real list \<Rightarrow> real list option" where
  "detStep A Hvals nu gamma dt x =
     (if length x \<le> length Hvals then
        (let u = fitness A Hvals nu gamma x;
             ubar = meanFitness A x u;
             dx = map (\<lambda>(xi, ui). fmul A xi (fsub A ui ubar)) (zip x u);
             x' = map (\<lambda>(xi, dxi). max (lit A (1 / 10 ^ 4)) (fadd A xi (fmul A dxi dt))) (zip x dx)
         in Some (renormalize A x'))
      else None)"

definition noisyStep ::
  "arith \<Rightarrow> real list \<Rightarrow> real \<Rightarrow> real \<Rightarrow> real \<Rightarrow> real list \<Rightarrow> real list \<Rightarrow> real list option" where
  "noisyStep A Hvals nu gamma dt noise x =
     (if length x \<le> length Hvals \<and> length x \<le> length noise then
        (let u = fitness A Hvals nu gamma x;
             ubar = meanFitness A x u;
             dx = map (\<lambda>(xi, ui). fmul A xi (fsub A ui ubar)) (zip x u);
             x' = map (\<lambda>(xi, dxi, ni). max (lit A (1 / 10 ^ 4)) (fadd A (fadd A xi (fmul A dxi dt)) ni))
                    (zip x (zip dx noise))
         in Some (renormalize A x'))
      else None)"

text \<open>
  The constants of the figure: \<^verbatim>\<open>const Hvals = [2.0, 1.8, 1.5, 1.2, 0.8];\<close>,
  \<^verbatim>\<open>const nu = 1.2, gamma = 1.5;\<close> and \<^verbatim>\<open>const T = 100, dt = 0.1;\<close>
\<close>

definition mc_Hvals :: "arith \<Rightarrow> real list" where
  "mc_Hvals A = [lit A 2.0, lit A 1.8, lit A 1.5, lit A 1.2, lit A 0.8]"

definition mc_detStep :: "arith \<Rightarrow> real list \<Rightarrow> real list option" where
  "mc_detStep A x = detStep A (mc_Hvals A) (lit A 1.2) (lit A 1.5) (lit A 0.1) x"

section \<open>Figure 7: the entropy estimators (bundle.js)\<close>








section \<open>Rounding to binary64\<close>

lemma round_even_of_int: "round_even (of_int n) = n"
  by (simp add: round_even_def)

lemma round_even_floor_le: "\<lfloor>x\<rfloor> \<le> round_even x"
  by (simp add: round_even_def Let_def)

lemma round_even_le_floor: "round_even x \<le> \<lfloor>x\<rfloor> + 1"
  by (simp add: round_even_def Let_def)

lemma round_even_mono: assumes "x \<le> y" shows "round_even x \<le> round_even y"
proof (cases "\<lfloor>x\<rfloor> = \<lfloor>y\<rfloor>")
  case True
  then show ?thesis using assms by (auto simp: round_even_def Let_def)
next
  case False
  then have "\<lfloor>x\<rfloor> < \<lfloor>y\<rfloor>" using floor_mono [OF assms] by linarith
  then show ?thesis using round_even_le_floor [of x] round_even_floor_le [of y] by linarith
qed

lemma round_even_minus: "round_even (- x) = - round_even x"
proof (cases "x \<in> \<int>")
  case True
  then obtain n where "x = of_int n" by (auto elim: Ints_cases)
  then show ?thesis using round_even_of_int [of "- n"] round_even_of_int [of n] by simp
next
  case False
  then have "x \<noteq> of_int \<lfloor>x\<rfloor>" by (metis Ints_of_int)
  then have fl: "\<lfloor>- x\<rfloor> = - \<lfloor>x\<rfloor> - 1"
    by (simp add: ceiling_altdef floor_minus)
  show ?thesis
    unfolding round_even_def Let_def fl by (auto simp: algebra_simps)
qed

lemma round_even_nonneg: "0 \<le> x \<Longrightarrow> 0 \<le> round_even x"
  using round_even_mono [of 0 x] round_even_of_int [of 0] by simp


lemma two_powr_of_int: "(2::real) powr real_of_int k = 2 powi k"
  by (simp add: powr_real_of_int')

lemma binade_bounds:
  assumes "x \<noteq> 0"
  shows "2 powi binade x \<le> \<bar>x\<bar>" and "\<bar>x\<bar> < 2 powi (binade x + 1)"
proof -
  have pos: "0 < \<bar>x\<bar>" using assms by simp
  have "\<lfloor>log 2 \<bar>x\<bar>\<rfloor> = binade x" by (simp add: binade_def)
  then have "2 powr real_of_int (binade x) \<le> \<bar>x\<bar> \<and> \<bar>x\<bar> < 2 powr real_of_int (binade x + 1)"
    using floor_log_eq_powr_iff [OF pos, of 2 "binade x"] by simp
  then show "2 powi binade x \<le> \<bar>x\<bar>" and "\<bar>x\<bar> < 2 powi (binade x + 1)"
    unfolding two_powr_of_int by blast+
qed

lemma binade_eqI:
  assumes "2 powi e \<le> \<bar>x\<bar>" and "\<bar>x\<bar> < 2 powi (e + 1)"
  shows "binade x = e"
proof -
  have pos: "0 < \<bar>x\<bar>"
    using assms(1) zero_less_power_int [of "2::real" e] by linarith
  have "2 powr real_of_int e \<le> \<bar>x\<bar> \<and> \<bar>x\<bar> < 2 powr real_of_int (e + 1)"
    unfolding two_powr_of_int using assms by blast
  then have "\<lfloor>log 2 \<bar>x\<bar>\<rfloor> = e"
    using floor_log_eq_powr_iff [OF pos, of 2 e] by simp
  then show ?thesis by (simp add: binade_def)
qed

lemma binade_minus: "binade (- x) = binade x"
  by (simp add: binade_def)

lemma rnd64_0: "rnd64 0 = 0"
  by (simp add: rnd64_def)

lemma rnd64_minus: "rnd64 (- x) = - rnd64 x"
  by (simp add: rnd64_def binade_minus round_even_minus)

lemma two_powi_pos: "0 < (2::real) powi e"
  by (simp add: zero_less_power_int)

lemma two_powi_shift: "(2::real) powi (e - 52) = 2 powi e / 2 ^ 52"
  by (simp add: power_int_diff)

lemma two_powi_Suc: "(2::real) powi (e + 1) = 2 * 2 powi e"
  by (simp add: power_int_add)

lemma rnd64_eval:
  assumes "2 powi e \<le> \<bar>x\<bar>" and "\<bar>x\<bar> < 2 powi (e + 1)"
  shows "rnd64 x = of_int (round_even (x / 2 powi (e - 52))) * 2 powi (e - 52)"
proof -
  have "x \<noteq> 0" using assms(1) two_powi_pos [of e] by (cases "x = 0") simp_all
  moreover have "binade x = e" using assms by (rule binade_eqI)
  ultimately show ?thesis by (simp add: rnd64_def)
qed

lemma signif_bounds:
  assumes "2 powi e \<le> (x::real)" and "x < 2 powi (e + 1)"
  shows "2 ^ 52 \<le> x / 2 powi (e - 52)" and "x / 2 powi (e - 52) < 2 ^ 53"
proof -
  have p: "0 < (2::real) powi e" by (rule two_powi_pos)
  show "2 ^ 52 \<le> x / 2 powi (e - 52)"
    using assms(1) p by (simp add: two_powi_shift field_simps)
  have "x < 2 * 2 powi e" using assms(2) unfolding two_powi_Suc .
  then show "x / 2 powi (e - 52) < 2 ^ 53"
    using p by (simp add: two_powi_shift field_simps)
qed

lemma round_even_signif:
  assumes "2 powi e \<le> (x::real)" and "x < 2 powi (e + 1)"
  shows "2 ^ 52 \<le> round_even (x / 2 powi (e - 52))"
    and "round_even (x / 2 powi (e - 52)) \<le> 2 ^ 53"
proof -
  have a: "real_of_int (2 ^ 52) \<le> x / 2 powi (e - 52)"
    using signif_bounds(1) [OF assms] by simp
  have b: "x / 2 powi (e - 52) \<le> real_of_int (2 ^ 53)"
    using signif_bounds(2) [OF assms] by simp
  show "2 ^ 52 \<le> round_even (x / 2 powi (e - 52))"
    using round_even_mono [OF a] by (simp only: round_even_of_int)
  show "round_even (x / 2 powi (e - 52)) \<le> 2 ^ 53"
    using round_even_mono [OF b] by (simp only: round_even_of_int)
qed

lemma rnd64_pos_bounds:
  assumes "2 powi e \<le> x" and "x < 2 powi (e + 1)"
  shows "2 powi e \<le> rnd64 x" and "rnd64 x \<le> 2 powi (e + 1)"
proof -
  have x: "\<bar>x\<bar> = x" using assms(1) two_powi_pos [of e] by linarith
  have ev: "rnd64 x = of_int (round_even (x / 2 powi (e - 52))) * 2 powi (e - 52)"
    using assms by (intro rnd64_eval) (simp_all add: x)
  have p: "0 < (2::real) powi e" by (rule two_powi_pos)
  have lo: "(2::real) ^ 52 \<le> of_int (round_even (x / 2 powi (e - 52)))"
    using round_even_signif(1) [OF assms] by (metis of_int_le_iff of_int_numeral of_int_power)
  have hi: "of_int (round_even (x / 2 powi (e - 52))) \<le> (2::real) ^ 53"
    using round_even_signif(2) [OF assms] by (metis of_int_le_iff of_int_numeral of_int_power)
  show "2 powi e \<le> rnd64 x"
    using lo p unfolding ev two_powi_shift by (simp add: field_simps)
  show "rnd64 x \<le> 2 powi (e + 1)"
    using hi p unfolding ev two_powi_shift two_powi_Suc by (simp add: field_simps)
qed

lemma binade_mono:
  assumes "0 < x" and "x \<le> y"
  shows "binade x \<le> binade y"
proof -
  have "log 2 x \<le> log 2 y" using assms by simp
  then show ?thesis using assms by (simp add: binade_def floor_mono)
qed

lemma rnd64_mono_pos:
  assumes "0 < x" and "x \<le> y"
  shows "rnd64 x \<le> rnd64 y"
proof -
  have x0: "x \<noteq> 0" and y0: "y \<noteq> 0" and ax: "\<bar>x\<bar> = x" and ay: "\<bar>y\<bar> = y"
    using assms by simp_all
  have bx: "2 powi binade x \<le> x" "x < 2 powi (binade x + 1)"
    using binade_bounds [OF x0] by (simp_all add: ax)
  have by': "2 powi binade y \<le> y" "y < 2 powi (binade y + 1)"
    using binade_bounds [OF y0] by (simp_all add: ay)
  show ?thesis
  proof (cases "binade x = binade y")
    case True
    have "x / 2 powi (binade y - 52) \<le> y / 2 powi (binade y - 52)"
      using assms(2) two_powi_pos [of "binade y - 52"] by (simp add: divide_right_mono)
    then have "round_even (x / 2 powi (binade y - 52)) \<le> round_even (y / 2 powi (binade y - 52))"
      by (rule round_even_mono)
    then show ?thesis
      using x0 y0 True two_powi_pos [of "binade y - 52"] by (simp add: rnd64_def)
  next
    case False
    then have "binade x + 1 \<le> binade y" using binade_mono [OF assms] by linarith
    then have "(2::real) powi (binade x + 1) \<le> 2 powi binade y"
      by (intro power_int_increasing) simp_all
    then show ?thesis
      using rnd64_pos_bounds(2) [OF bx] rnd64_pos_bounds(1) [OF by'] by linarith
  qed
qed

lemma rnd64_nonneg: "0 \<le> x \<Longrightarrow> 0 \<le> rnd64 x"
  using round_even_nonneg [of "x / 2 powi (binade x - 52)"] two_powi_pos [of "binade x - 52"]
  by (simp add: rnd64_def)

lemma rnd64_mono: assumes "x \<le> y" shows "rnd64 x \<le> rnd64 y"
proof -
  consider "0 < x" | "x \<le> 0" "0 \<le> y" | "y < 0" using assms by linarith
  then show ?thesis
  proof cases
    case 1
    then show ?thesis using assms by (rule rnd64_mono_pos)
  next
    case 2
    have "0 \<le> rnd64 (- x)" using 2(1) by (intro rnd64_nonneg) simp
    then have "rnd64 x \<le> 0" by (simp add: rnd64_minus)
    then show ?thesis using rnd64_nonneg [OF 2(2)] by linarith
  next
    case 3
    have "rnd64 (- y) \<le> rnd64 (- x)" using 3 assms by (intro rnd64_mono_pos) simp_all
    then show ?thesis by (simp add: rnd64_minus)
  qed
qed

lemma rnd64_dyadic:
  assumes m: "\<bar>m\<bar> < 2 ^ 53"
  shows "rnd64 (of_int m * 2 powi e) = of_int m * 2 powi e"
proof (cases "m = 0")
  case True
  then show ?thesis by (simp add: rnd64_0)
next
  case False
  define x :: real where "x = of_int m * 2 powi e"
  define b where "b = binade x"
  have x0: "x \<noteq> 0" using False two_powi_pos [of e] by (simp add: x_def)
  have ax: "\<bar>x\<bar> = of_int \<bar>m\<bar> * 2 powi e"
    using two_powi_pos [of e] by (simp add: x_def abs_mult)
  have "real_of_int \<bar>m\<bar> < 2 ^ 53"
    using m by (metis of_int_less_iff of_int_numeral of_int_power)
  then have "\<bar>x\<bar> < 2 ^ 53 * 2 powi e"
    unfolding ax using two_powi_pos [of e] by simp
  also have "\<dots> = 2 powi (e + 53)" by (simp add: power_int_add)
  finally have lt: "2 powi b < (2::real) powi (e + 53)"
    using binade_bounds(1) [OF x0] unfolding b_def by linarith
  have "b < e + 53"
  proof (rule ccontr)
    assume "\<not> b < e + 53"
    then have "e + 53 \<le> b" by simp
    then have "(2::real) powi (e + 53) \<le> 2 powi b"
      by (intro power_int_increasing) simp_all
    then show False using lt by simp
  qed
  then have k: "0 \<le> e - (b - 52)" by simp
  have "x / 2 powi (b - 52) = of_int m * 2 powi (e - (b - 52))"
    by (simp add: x_def power_int_diff)
  also have "\<dots> = of_int m * 2 ^ nat (e - (b - 52))"
    using k by (simp add: power_int_def)
  also have "\<dots> = of_int (m * 2 ^ nat (e - (b - 52)))" by simp
  finally have "round_even (x / 2 powi (b - 52)) = m * 2 ^ nat (e - (b - 52))"
    by (simp only: round_even_of_int)
  then have "rnd64 x = of_int (m * 2 ^ nat (e - (b - 52))) * 2 powi (b - 52)"
    using x0 by (simp add: rnd64_def b_def)
  also have "\<dots> = of_int m * (2 powi (e - (b - 52)) * 2 powi (b - 52))"
    using k by (simp add: power_int_def)
  also have "2 powi (e - (b - 52)) * 2 powi (b - 52) = (2::real) powi e"
    by (simp add: power_int_add [symmetric])
  finally show ?thesis by (simp add: x_def)
qed

lemma rnd64_form: "\<exists>m e. \<bar>m\<bar> < 2 ^ 53 \<and> rnd64 x = of_int m * 2 powi e"
proof -
  have pos: "\<exists>m e. \<bar>m\<bar> < 2 ^ 53 \<and> rnd64 y = of_int m * 2 powi e" if "0 < y" for y
  proof -
    define b where "b = binade y"
    define M where "M = round_even (y / 2 powi (b - 52))"
    have y0: "y \<noteq> 0" and ay: "\<bar>y\<bar> = y" using that by simp_all
    have by': "2 powi b \<le> y" "y < 2 powi (b + 1)"
      using binade_bounds [OF y0] by (simp_all add: ay b_def)
    have M: "2 ^ 52 \<le> M" "M \<le> 2 ^ 53"
      using round_even_signif [OF by'] by (simp_all add: M_def)
    have ev: "rnd64 y = of_int M * 2 powi (b - 52)"
      using y0 by (simp add: rnd64_def b_def M_def)
    show ?thesis
    proof (cases "M = 2 ^ 53")
      case True
      have "rnd64 y = of_int 1 * 2 powi (b + 1)"
        unfolding ev True by (simp add: power_int_diff power_int_add)
      moreover have "\<bar>1::int\<bar> < 2 ^ 53" by simp
      ultimately show ?thesis by blast
    next
      case False
      then have "\<bar>M\<bar> < 2 ^ 53" using M by simp
      then show ?thesis using ev by blast
    qed
  qed
  consider "0 < x" | "x = 0" | "x < 0" by linarith
  then show ?thesis
  proof cases
    case 1
    then show ?thesis by (rule pos)
  next
    case 2
    have "\<bar>0::int\<bar> < 2 ^ 53 \<and> rnd64 x = of_int 0 * 2 powi 0" using 2 by (simp add: rnd64_0)
    then show ?thesis by blast
  next
    case 3
    then obtain m e where me: "\<bar>m\<bar> < 2 ^ 53" "rnd64 (- x) = of_int m * 2 powi e"
      using pos [of "- x"] by auto
    then have "\<bar>- m\<bar> < 2 ^ 53 \<and> rnd64 x = of_int (- m) * 2 powi e"
      by (simp add: rnd64_minus)
    then show ?thesis by blast
  qed
qed

lemma rnd64_idem: "rnd64 (rnd64 x) = rnd64 x"
proof -
  obtain m e where "\<bar>m\<bar> < 2 ^ 53" "rnd64 x = of_int m * 2 powi e"
    using rnd64_form by blast
  then show ?thesis using rnd64_dyadic [of m e] by simp
qed

lemma rnd64_scale:
  assumes "rnd64 x = x"
  shows "rnd64 (x * 2 powi k) = x * 2 powi k"
proof -
  obtain m e where me: "\<bar>m\<bar> < 2 ^ 53" "rnd64 x = of_int m * 2 powi e"
    using rnd64_form by blast
  then have "x * 2 powi k = of_int m * 2 powi (e + k)"
    using assms by (simp add: power_int_add)
  then show ?thesis using rnd64_dyadic [OF me(1), of "e + k"] by simp
qed

lemma rnd64_half: "rnd64 x = x \<Longrightarrow> rnd64 (x / 2) = x / 2"
  using rnd64_scale [of x "- 1"] by (simp add: power_int_minus field_simps)

lemma rnd64_twice: "rnd64 x = x \<Longrightarrow> rnd64 (2 * x) = 2 * x"
  using rnd64_scale [of x 1] by (simp add: mult.commute)

lemma rnd64_of_int: "\<bar>n\<bar> < 2 ^ 53 \<Longrightarrow> rnd64 (of_int n) = of_int n"
  using rnd64_dyadic [of n 0] by simp

lemma rnd64_of_nat: "n < 2 ^ 53 \<Longrightarrow> rnd64 (of_nat n) = of_nat n"
  using rnd64_of_int [of "int n"] by simp

lemma rnd64_numeral: "rnd64 1 = 1" "rnd64 2 = 2" "rnd64 25 = 25" "rnd64 (1/4) = 1/4" "rnd64 (1/2) = 1/2"
  using rnd64_of_int [of 1] rnd64_of_int [of 2] rnd64_of_int [of 25] rnd64_dyadic [of 1 "-2"] rnd64_dyadic [of 1 "-1"]
  by (simp_all add: power_int_minus)

section \<open>Properties of the arithmetics and of the generator\<close>

lemma rand_seed: "snd (rand A s) = s * 1664525 + 1013904223"
  by (simp add: rand_def Let_def)

lemma fl_mono: "x \<le> y \<Longrightarrow> fl A x \<le> fl A y"
  by (cases "mode A") (simp_all add: fl_def rnd64_mono)

lemma fl_idem: "fl A (fl A x) = fl A x"
  by (cases "mode A") (simp_all add: fl_def rnd64_idem)

lemma fl_0: "fl A 0 = 0"
  by (cases "mode A") (simp_all add: fl_def rnd64_0)

lemma fl_dyadic: "\<bar>m\<bar> < 2 ^ 53 \<Longrightarrow> fl A (of_int m * 2 powi e) = of_int m * 2 powi e"
  by (cases "mode A") (simp_all add: fl_def rnd64_dyadic)

lemma fl_of_int: "\<bar>n\<bar> < 2 ^ 53 \<Longrightarrow> fl A (of_int n) = of_int n"
  using fl_dyadic [of n A 0] by simp

lemma fl_of_nat: "n < 2 ^ 53 \<Longrightarrow> fl A (of_nat n) = of_nat n"
  using fl_of_int [of "int n" A] by simp

lemma fl_half: "fl A x = x \<Longrightarrow> fl A (x / 2) = x / 2"
  by (cases "mode A") (simp_all add: fl_def rnd64_half)

lemma fl_twice: "fl A x = x \<Longrightarrow> fl A (2 * x) = 2 * x"
  by (cases "mode A") (simp_all add: fl_def rnd64_twice)

lemma fl_nonneg: "0 \<le> x \<Longrightarrow> 0 \<le> fl A x"
  using fl_mono [of 0 x A] by (simp add: fl_0)

lemma rand_value: "fst (rand A s) = real (unat (s * 1664525 + 1013904223)) / 2 ^ 32"
proof -
  define m where "m = unat (s * 1664525 + 1013904223)"
  have "m < 2 ^ 32" unfolding m_def using unsigned_less [of "s * 1664525 + 1013904223", where ?'a = nat] by simp
  then have "\<bar>int m\<bar> < 2 ^ 53" by simp
  then have "fl A (of_int (int m) * 2 powi (- 32)) = of_int (int m) * 2 powi (- 32)"
    by (rule fl_dyadic)
  then have "fl A (real m / 4294967296) = real m / 4294967296"
    by (simp add: power_int_minus field_simps)
  then show ?thesis by (simp add: rand_def Let_def fdiv_def m_def)
qed

text \<open>
  Claim C10. For every 32-bit seed, in either arithmetic, \<open>rand\<close> updates the seed to
  \<open>(1664525 * seed + 1013904223) mod 2^32\<close> and returns the updated seed, read as an
  unsigned 32-bit integer, divided by \<open>2^32\<close>: a value \<open>r\<close> with \<open>0 \<le> r < 1\<close>. (The
  quotient is a Number: binary64 does not round it.)
\<close>

theorem rand_unit_interval:
  "snd (rand A s) = s * 1664525 + 1013904223
   \<and> unat (snd (rand A s)) = (1664525 * unat s + 1013904223) mod 2 ^ 32
   \<and> fst (rand A s) = real (unat (snd (rand A s))) / 2 ^ 32
   \<and> 0 \<le> fst (rand A s) \<and> fst (rand A s) < 1"
proof -
  have s: "snd (rand A s) = s * 1664525 + 1013904223" by (rule rand_seed)
  have u: "unat (s * 1664525 + 1013904223) = (1664525 * unat s + 1013904223) mod 2 ^ 32"
    by (simp add: unat_word_ariths mod_simps mult.commute)
  have "unat (s * 1664525 + 1013904223) < 2 ^ 32"
    using unsigned_less [of "s * 1664525 + 1013904223", where ?'a = nat] by simp
  then have "real (unat (s * 1664525 + 1013904223)) < 2 ^ 32"
    by (metis of_nat_less_iff of_nat_numeral of_nat_power)
  then have "real (unat (s * 1664525 + 1013904223)) / 2 ^ 32 < 1" by simp
  then show ?thesis unfolding s rand_value using u by simp
qed

text \<open>
  Claim C7. When the document has no element with the given id, \<open>lazyDraw\<close> returns
  normally and leaves the page as it was, whatever the draw function is: the draw
  function is not run (one that would throw is not seen to), no observer is registered.
\<close>

theorem lazyDraw_missing_canvas:
  "getElementById pg canvasId = None \<Longrightarrow> lazyDraw canvasId drawFn pg = Inr pg"
  by (simp add: lazyDraw_def)

theorem lazyDraw_missing_canvas_witness:
  "lazyDraw ''kmrChart'' (\<lambda>cv w. Inl ())
     \<lparr>getElementById = (\<lambda>i. if i = ''basinChart'' then Some (1::nat) else None),
      hasIntersectionObserver = False, observers = [], world = (0::nat)\<rparr>
   = Inr \<lparr>getElementById = (\<lambda>i. if i = ''basinChart'' then Some (1::nat) else None),
      hasIntersectionObserver = False, observers = [], world = (0::nat)\<rparr>"
  using lazyDraw_missing_canvas [of "\<lparr>getElementById = (\<lambda>i. if i = ''basinChart'' then Some (1::nat) else None),
      hasIntersectionObserver = False, observers = [], world = (0::nat)\<rparr>" "''kmrChart''" "\<lambda>cv w. Inl ()"]
  by simp

section \<open>Properties of the KMR chain\<close>

lemma sum_list_update_int:
  "i < length xs \<Longrightarrow> sum_list (xs[i := v]) = sum_list xs + v - (xs ! i :: int)"
proof (induction xs arbitrary: i)
  case Nil
  then show ?case by simp
next
  case (Cons x xs)
  then show ?case by (cases i) simp_all
qed

lemma kmrInit_eq: "kmrInit A s = (98765, 25, replicate 51 0)"
proof -
  have "fl A (of_int 25) = of_int 25" by (rule fl_of_int) simp
  then show ?thesis by (simp add: kmrInit_def resetSeed_def fdiv_def kmr_N_def)
qed

lemma kmrMove_step:
  assumes "0 \<le> k" and "k \<le> kmr_N" and "kmrMove A eps (s, k) = (s', k')"
  shows "0 \<le> k' \<and> k' \<le> kmr_N \<and> \<bar>k' - k\<bar> \<le> 1"
  using assms unfolding kmrMove_def Let_def
  by (auto split: prod.splits if_splits)

lemma hist_incr_ok:
  assumes "0 \<le> k" and "k \<le> kmr_N" and "length hist = 51" and "list_all (\<lambda>c. 0 \<le> c) hist"
  shows "\<exists>hist'. hist_incr hist k = Some hist' \<and> length hist' = 51
           \<and> list_all (\<lambda>c. 0 \<le> c) hist' \<and> sum_list hist' = sum_list hist + 1"
proof -
  have i: "nat k < length hist" using assms by (simp add: kmr_N_def)
  have nn: "0 \<le> hist ! nat k" using assms(4) i by (simp add: list_all_length)
  have "set (hist[nat k := hist ! nat k + 1]) \<subseteq> insert (hist ! nat k + 1) (set hist)"
    by (rule set_update_subset_insert)
  then have "list_all (\<lambda>c. 0 \<le> c) (hist[nat k := hist ! nat k + 1])"
    using assms(4) nn by (auto simp: list_all_iff)
  moreover have "sum_list (hist[nat k := hist ! nat k + 1]) = sum_list hist + 1"
    using i by (simp add: sum_list_update_int)
  ultimately show ?thesis using assms i by (simp add: hist_incr_def)
qed


lemma kmrIter_ok:
  assumes "kmr_inv (s, k, hist)"
  shows "\<exists>s' k' hist'. kmrIter A eps burnin t (s, k, hist) = Some (s', k', hist')
           \<and> kmr_inv (s', k', hist') \<and> \<bar>k' - k\<bar> \<le> 1
           \<and> sum_list hist' = sum_list hist + (if burnin \<le> t then 1 else 0)"
proof -
  obtain s' k' where mv: "kmrMove A eps (s, k) = (s', k')" by (cases "kmrMove A eps (s, k)")
  have inv: "0 \<le> k" "k \<le> kmr_N" "length hist = 51" "list_all (\<lambda>c. 0 \<le> c) hist"
    using assms by (simp_all add: kmr_inv_def)
  have k': "0 \<le> k'" "k' \<le> kmr_N" "\<bar>k' - k\<bar> \<le> 1"
    using kmrMove_step [OF inv(1,2) mv] by simp_all
  show ?thesis
  proof (cases "burnin \<le> t")
    case True
    obtain hist' where h: "hist_incr hist k' = Some hist'" "length hist' = 51"
        "list_all (\<lambda>c. 0 \<le> c) hist'" "sum_list hist' = sum_list hist + 1"
      using hist_incr_ok [OF k'(1,2) inv(3,4)] by blast
    then show ?thesis using True mv k' by (simp add: kmrIter_def kmr_inv_def)
  next
    case False
    then show ?thesis using mv k' inv by (simp add: kmrIter_def kmr_inv_def)
  qed
qed

declare kmrLoop.simps [simp del]

lemma kmrLoop_step:
  "t < T \<Longrightarrow> kmrLoop A eps burnin T t st =
     (case kmrIter A eps burnin t st of None \<Rightarrow> None
      | Some st' \<Rightarrow> kmrLoop A eps burnin T (t + 1) st')"
  by (subst kmrLoop.simps) simp

lemma kmrLoop_done: "\<not> t < T \<Longrightarrow> kmrLoop A eps burnin T t st = Some st"
  by (subst kmrLoop.simps) simp

lemma kmrLoop_ok:
  "kmr_inv st \<Longrightarrow>
   \<exists>s' k' hist'. kmrLoop A eps burnin T t st = Some (s', k', hist') \<and> kmr_inv (s', k', hist')
     \<and> sum_list hist' = sum_list (snd (snd st)) + int (T - max t burnin)"
proof (induction A eps burnin T t st rule: kmrLoop.induct)
  case (1 A eps burnin T t st)
  obtain s k hist where st: "st = (s, k, hist)" by (cases st)
  show ?case
  proof (cases "t < T")
    case True
    obtain s1 k1 hist1 where it: "kmrIter A eps burnin t st = Some (s1, k1, hist1)"
        "kmr_inv (s1, k1, hist1)"
        "sum_list hist1 = sum_list hist + (if burnin \<le> t then 1 else 0)"
      using kmrIter_ok [of s k hist A eps burnin t] "1.prems" unfolding st by blast
    obtain s' k' hist' where lp: "kmrLoop A eps burnin T (t + 1) (s1, k1, hist1) = Some (s', k', hist')"
        "kmr_inv (s', k', hist')"
        "sum_list hist' = sum_list hist1 + int (T - max (t + 1) burnin)"
      using "1.IH" [OF True it(1) it(2)] by auto
    have "kmrLoop A eps burnin T t st = Some (s', k', hist')"
      using it(1) lp(1) by (simp add: kmrLoop_step [OF True])
    moreover have "sum_list hist' = sum_list (snd (snd st)) + int (T - max t burnin)"
      using lp(3) it(3) True by (auto simp: st max_def)
    ultimately show ?thesis using lp(2) by blast
  next
    case False
    then show ?thesis using "1.prems" by (auto simp: st kmrLoop_done)
  qed
qed

lemma kmrLoop_Suc:
  "t \<le> j \<Longrightarrow>
   kmrLoop A eps burnin (Suc j) t st =
     (case kmrLoop A eps burnin j t st of None \<Rightarrow> None | Some st' \<Rightarrow> kmrIter A eps burnin j st')"
proof (induction A eps burnin j t st rule: kmrLoop.induct)
  case (1 A eps burnin T t st)
  show ?case
  proof (cases "t < T")
    case True
    then have T': "t < Suc T" by simp
    show ?thesis
    proof (cases "kmrIter A eps burnin t st")
      case None
      then show ?thesis by (simp add: kmrLoop_step [OF True] kmrLoop_step [OF T'])
    next
      case (Some st1)
      have "kmrLoop A eps burnin (Suc T) (t + 1) st1 =
        (case kmrLoop A eps burnin T (t + 1) st1 of None \<Rightarrow> None
         | Some st' \<Rightarrow> kmrIter A eps burnin T st')"
        using "1.IH" [OF True Some] True by simp
      then show ?thesis using Some by (simp add: kmrLoop_step [OF True] kmrLoop_step [OF T'])
    qed
  next
    case False
    then have t: "t = T" using "1.prems" by simp
    have "kmrLoop A eps burnin (Suc T) T st =
      (case kmrIter A eps burnin T st of None \<Rightarrow> None
       | Some st' \<Rightarrow> kmrLoop A eps burnin (Suc T) (T + 1) st')"
      by (rule kmrLoop_step) simp
    then show ?thesis unfolding t
      by (simp add: kmrLoop_done split: option.splits)
  qed
qed

lemma kmrInit_inv: "kmr_inv (kmrInit A s)"
  by (simp add: kmrInit_eq kmr_inv_def kmr_N_def list_all_iff)

lemma kmrAfter_ok:
  "\<exists>s' k' hist'. kmrAfter A eps T s j = Some (s', k', hist') \<and> kmr_inv (s', k', hist')
     \<and> sum_list hist' = int (j - kmrBurnin A T)"
proof -
  have "\<exists>s' k' hist'. kmrLoop A eps (kmrBurnin A T) j 0 (kmrInit A s) = Some (s', k', hist')
     \<and> kmr_inv (s', k', hist')
     \<and> sum_list hist' = sum_list (snd (snd (kmrInit A s))) + int (j - max 0 (kmrBurnin A T))"
    by (rule kmrLoop_ok [OF kmrInit_inv])
  then show ?thesis by (simp add: kmrAfter_def kmrInit_eq sum_list_replicate)
qed

text \<open>
  Claim C3. The chain of \<open>runKMR\<close> is a birth-death chain on \<open>0..N\<close>: \<open>k\<close> starts at
  \<open>floor(N/2)\<close>; the loop reaches its \<open>j\<close>-th iteration for every \<open>j < T\<close>, with \<open>k\<close> in
  \<open>0..N\<close> before and after it, and the iteration changes \<open>k\<close> by at most one; the state
  after \<open>T\<close> iterations is what \<open>runKMR\<close> returns from. This holds for every \<open>eps\<close>, in
  either arithmetic and for every \<open>Math.pow\<close>.
\<close>

theorem kmr_birth_death:
  assumes "j < T"
  shows "(\<exists>s0 hist0. kmrAfter A eps T s 0 = Some (s0, \<lfloor>real_of_int kmr_N / 2\<rfloor>, hist0))
    \<and> (\<exists>s1 k1 hist1 s2 k2 hist2.
          kmrAfter A eps T s j = Some (s1, k1, hist1)
        \<and> kmrAfter A eps T s (Suc j) = Some (s2, k2, hist2)
        \<and> kmrIter A eps (kmrBurnin A T) j (s1, k1, hist1) = Some (s2, k2, hist2)
        \<and> 0 \<le> k1 \<and> k1 \<le> kmr_N \<and> 0 \<le> k2 \<and> k2 \<le> kmr_N \<and> \<bar>k2 - k1\<bar> \<le> 1)
    \<and> (\<exists>hist s'. runKMR A eps T s = Some (hist, s')
          \<and> map_option (\<lambda>(s, k, h). (h, s)) (kmrAfter A eps T s T) = Some (hist, s'))"
proof -
  have init: "\<exists>s0 hist0. kmrAfter A eps T s 0 = Some (s0, \<lfloor>real_of_int kmr_N / 2\<rfloor>, hist0)"
    by (simp add: kmrAfter_def kmrLoop_done kmrInit_eq kmr_N_def)
  obtain s1 k1 hist1 where a: "kmrAfter A eps T s j = Some (s1, k1, hist1)"
      "kmr_inv (s1, k1, hist1)"
    using kmrAfter_ok [of A eps T s j] by blast
  obtain s2 k2 hist2 where b: "kmrIter A eps (kmrBurnin A T) j (s1, k1, hist1) = Some (s2, k2, hist2)"
      "kmr_inv (s2, k2, hist2)" "\<bar>k2 - k1\<bar> \<le> 1"
    using kmrIter_ok [OF a(2), of A eps "kmrBurnin A T" j] by blast
  have c: "kmrAfter A eps T s (Suc j) = Some (s2, k2, hist2)"
    using a(1) b(1) kmrLoop_Suc [of 0 j A eps "kmrBurnin A T" "kmrInit A s"]
    by (simp add: kmrAfter_def)
  have step: "\<exists>s1 k1 hist1 s2 k2 hist2.
          kmrAfter A eps T s j = Some (s1, k1, hist1)
        \<and> kmrAfter A eps T s (Suc j) = Some (s2, k2, hist2)
        \<and> kmrIter A eps (kmrBurnin A T) j (s1, k1, hist1) = Some (s2, k2, hist2)
        \<and> 0 \<le> k1 \<and> k1 \<le> kmr_N \<and> 0 \<le> k2 \<and> k2 \<le> kmr_N \<and> \<bar>k2 - k1\<bar> \<le> 1"
    using a b c by (auto simp: kmr_inv_def)
  obtain s' k' hist' where r: "kmrAfter A eps T s T = Some (s', k', hist')"
    using kmrAfter_ok [of A eps T s T] by blast
  then have "runKMR A eps T s = Some (hist', s')
      \<and> map_option (\<lambda>(s, k, h). (h, s)) (kmrAfter A eps T s T) = Some (hist', s')"
    by (simp add: runKMR_def kmrAfter_def)
  then show ?thesis using init step by blast
qed

lemma kmrBurnin_eq:
  assumes "mode A = Exact \<or> T < 2 ^ 53"
  shows "kmrBurnin A T = T div 4"
proof -
  have q: "fl A (1 / 4) = 1 / 4"
    using fl_dyadic [of 1 A "- 2"] by (simp add: power_int_minus)
  have c: "(0.25::real) = 1 / 4" by simp
  have lq: "lit A 0.25 = 1 / 4" unfolding lit_def c by (rule q)
  have e: "real T * (1 / 4) = real T / 4" by simp
  have h: "fl A (real T / 4) = real T / 4"
  proof (cases "mode A")
    case Exact
    then show ?thesis by (simp add: fl_def)
  next
    case Binary64
    then have "\<bar>int T\<bar> < 2 ^ 53" using assms by simp
    then have "fl A (of_int (int T) * 2 powi (- 2)) = of_int (int T) * 2 powi (- 2)"
      by (rule fl_dyadic)
    then show ?thesis by (simp add: power_int_minus field_simps)
  qed
  have "fmul A (real T) (lit A 0.25) = real T / real 4"
    unfolding fmul_def lq e h by simp
  then have "\<lfloor>fmul A (real T) (lit A 0.25)\<rfloor> = int (T div 4)"
    by (simp only: floor_divide_of_nat_eq)
  then show ?thesis by (simp add: kmrBurnin_def)
qed

text \<open>
  Claim C5. \<open>runKMR\<close> resets the seed before it simulates, so its result does not
  depend on the seed it finds: two invocations with the same arguments return the same
  histogram (and leave the same seed).
\<close>

theorem runKMR_reproducible:
  "\<exists>hist s'. runKMR A eps T s1 = Some (hist, s') \<and> runKMR A eps T s2 = Some (hist, s')"
proof -
  have same: "kmrInit A s1 = kmrInit A s2" by (simp add: kmrInit_eq)
  obtain s' k' hist' where "kmrAfter A eps T s1 T = Some (s', k', hist')"
    using kmrAfter_ok [of A eps T s1 T] by blast
  then have "runKMR A eps T s1 = Some (hist', s') \<and> runKMR A eps T s2 = Some (hist', s')"
    using same by (simp add: runKMR_def kmrAfter_def)
  then show ?thesis by blast
qed

text \<open>
  Claim C6. \<open>runKMR\<close> returns a histogram with \<open>N + 1 = 51\<close> entries, each a
  nonnegative integer, that sum to \<open>T - floor(0.25 * T)\<close>. In binary64 the number of
  steps is a Number that counts exactly, \<open>T < 2^53\<close>.
\<close>

theorem runKMR_histogram:
  assumes "mode A = Exact \<or> T < 2 ^ 53"
  shows "\<exists>hist s'. runKMR A eps T s = Some (hist, s') \<and> length hist = nat (kmr_N + 1)
           \<and> list_all (\<lambda>c. 0 \<le> c) hist \<and> sum_list hist = int T - \<lfloor>0.25 * real T\<rfloor>"
proof -
  obtain s' k' hist' where r: "kmrAfter A eps T s T = Some (s', k', hist')"
      "kmr_inv (s', k', hist')" "sum_list hist' = int (T - kmrBurnin A T)"
    using kmrAfter_ok [of A eps T s T] by blast
  have "\<lfloor>0.25 * real T\<rfloor> = \<lfloor>real T / real 4\<rfloor>" by simp
  also have "\<dots> = int (T div 4)" by (simp only: floor_divide_of_nat_eq)
  finally have fl: "\<lfloor>0.25 * real T\<rfloor> = int (T div 4)" .
  have "sum_list hist' = int T - \<lfloor>0.25 * real T\<rfloor>"
    unfolding fl r(3) kmrBurnin_eq [OF assms] by simp
  moreover have "runKMR A eps T s = Some (hist', s')"
    using r(1) by (simp add: runKMR_def kmrAfter_def)
  ultimately show ?thesis using r(2) by (simp add: kmr_inv_def kmr_N_def)
qed

theorem runKMR_histogram_witness:
  "\<exists>hist s'. runKMR binary64 (1 / 10) 8 0 = Some (hist, s') \<and> length hist = 51
           \<and> list_all (\<lambda>c. 0 \<le> c) hist \<and> sum_list hist = 6"
  using runKMR_histogram [of binary64 8 "1 / 10" 0] by (simp add: kmr_N_def)

theorem runKMR_reproducible_witness:
  "\<exists>hist s'. runKMR binary64 (1 / 10) 8 0 = Some (hist, s')
      \<and> runKMR binary64 (1 / 10) 8 98765 = Some (hist, s')"
  using runKMR_reproducible [of binary64 "1 / 10" 8 0 98765] by simp

theorem kmr_birth_death_witness:
  "(\<exists>s0 hist0. kmrAfter exact (1 / 10) 3 0 0 = Some (s0, 25, hist0))
    \<and> (\<exists>s1 k1 hist1 s2 k2 hist2.
          kmrAfter exact (1 / 10) 3 0 1 = Some (s1, k1, hist1)
        \<and> kmrAfter exact (1 / 10) 3 0 (Suc 1) = Some (s2, k2, hist2)
        \<and> kmrIter exact (1 / 10) (kmrBurnin exact 3) 1 (s1, k1, hist1) = Some (s2, k2, hist2)
        \<and> 0 \<le> k1 \<and> k1 \<le> 50 \<and> 0 \<le> k2 \<and> k2 \<le> 50 \<and> \<bar>k2 - k1\<bar> \<le> 1)
    \<and> (\<exists>hist s'. runKMR exact (1 / 10) 3 0 = Some (hist, s')
          \<and> map_option (\<lambda>(s, k, h). (h, s)) (kmrAfter exact (1 / 10) 3 0 3) = Some (hist, s'))"
  using kmr_birth_death [of 1 3 exact "1 / 10" 0] by (simp add: kmr_N_def)

section \<open>Properties of the separatrix search\<close>

lemma rnd64_evalI:
  assumes "2 powi e \<le> \<bar>x\<bar>" and "\<bar>x\<bar> < 2 powi (e + 1)"
    and "round_even (x / 2 powi (e - 52)) = M"
  shows "rnd64 x = of_int M * 2 powi (e - 52)"
  using rnd64_eval [OF assms(1,2)] assms(3) by simp

lemma rnd64_0001: "rnd64 (1 / 1000) = 4611686018427388 / 2 ^ 62"
proof -
  have r: "round_even (1 / 1000 / 2 powi (- 10 - 52)) = 4611686018427388"
    by (simp add: round_even_def power_int_minus)
  have "rnd64 (1 / 1000) = of_int (round_even (1 / 1000 / 2 powi (- 10 - 52))) * 2 powi (- 10 - 52)"
    by (rule rnd64_eval) (simp_all add: power_int_minus)
  then show ?thesis unfolding r by (simp add: power_int_minus)
qed

lemma rnd64_0499: "rnd64 (499 / 1000) = 8989184856231510 / 2 ^ 54"
proof -
  have r: "round_even (499 / 1000 / 2 powi (- 2 - 52)) = 8989184856231510"
    by (simp add: round_even_def power_int_minus)
  have "rnd64 (499 / 1000) = of_int (round_even (499 / 1000 / 2 powi (- 2 - 52))) * 2 powi (- 2 - 52)"
    by (rule rnd64_eval) (simp_all add: power_int_minus)
  then show ?thesis unfolding r by (simp add: power_int_minus)
qed

lemma lit_0001: "1 / 1000 \<le> lit A 0.001"
proof (cases "mode A")
  case Exact
  then show ?thesis by (simp add: lit_def fl_def)
next
  case Binary64
  have "(1::real) / 1000 \<le> 4611686018427388 / 2 ^ 62" by simp
  then have "1 / 1000 \<le> rnd64 (1 / 1000)" by (simp only: rnd64_0001)
  then show ?thesis using Binary64 by (simp add: lit_def fl_def)
qed

lemma lit_0499: "lit A 0.499 \<le> 499 / 1000"
proof (cases "mode A")
  case Exact
  then show ?thesis by (simp add: lit_def fl_def)
next
  case Binary64
  have "(8989184856231510::real) / 2 ^ 54 \<le> 499 / 1000" by simp
  then have "rnd64 (499 / 1000) \<le> 499 / 1000" by (simp only: rnd64_0499)
  then show ?thesis using Binary64 by (simp add: lit_def fl_def)
qed

lemma fl_lit: "fl A (lit A x) = lit A x"
  unfolding lit_def by (rule fl_idem)

lemma lit_0001_le_0499: "lit A 0.001 \<le> lit A 0.499"
  unfolding lit_def by (rule fl_mono) simp

lemma mid_between:
  assumes "fl A lo = lo" and "fl A hi = hi" and "lo \<le> hi"
  shows "lo \<le> fdiv A (fadd A lo hi) 2" and "fdiv A (fadd A lo hi) 2 \<le> hi"
    and "fl A (fdiv A (fadd A lo hi) 2) = fdiv A (fadd A lo hi) 2"
proof -
  define s where "s = fl A (lo + hi)"
  have "fl A (2 * lo) \<le> s" unfolding s_def using assms(3) by (intro fl_mono) simp
  then have lo: "2 * lo \<le> s" by (simp only: fl_twice [OF assms(1)])
  have "s \<le> fl A (2 * hi)" unfolding s_def using assms(3) by (intro fl_mono) simp
  then have hi: "s \<le> 2 * hi" by (simp only: fl_twice [OF assms(2)])
  have "fl A s = s" unfolding s_def by (rule fl_idem)
  then have half: "fl A (s / 2) = s / 2" by (rule fl_half)
  have mid: "fdiv A (fadd A lo hi) 2 = s / 2"
    unfolding fdiv_def fadd_def s_def [symmetric] by (rule half)
  show "lo \<le> fdiv A (fadd A lo hi) 2" unfolding mid using lo by simp
  show "fdiv A (fadd A lo hi) 2 \<le> hi" unfolding mid using hi by simp
  show "fl A (fdiv A (fadd A lo hi) 2) = fdiv A (fadd A lo hi) 2"
    unfolding fdiv_def by (rule fl_idem)
qed

lemma findSepLoop_range:
  assumes "fl A lo = lo" and "fl A hi = hi" and "lo \<le> hi"
    and "findSepLoop A deltaH nu gamma n (lo, hi) = (lo', hi')"
  shows "fl A lo' = lo' \<and> fl A hi' = hi' \<and> lo \<le> lo' \<and> lo' \<le> hi' \<and> hi' \<le> hi"
  using assms
proof (induction n arbitrary: lo hi)
  case 0
  then show ?case by simp
next
  case (Suc n)
  note m = mid_between [OF Suc.prems(1,2,3)]
  show ?case
  proof (cases "fmul A nu (g A (fdiv A (fadd A lo hi) 2) gamma) > deltaH")
    case True
    then have "findSepLoop A deltaH nu gamma n (fdiv A (fadd A lo hi) 2, hi) = (lo', hi')"
      using Suc.prems(4) by (simp add: Let_def)
    from Suc.IH [OF m(3) Suc.prems(2) m(2) this] show ?thesis using m(1) by simp
  next
    case False
    then have "findSepLoop A deltaH nu gamma n (lo, fdiv A (fadd A lo hi) 2) = (lo', hi')"
      using Suc.prems(4) by (simp add: Let_def)
    from Suc.IH [OF Suc.prems(1) m(3) m(1) this] show ?thesis using m(2) by simp
  qed
qed

text \<open>
  Claim C8. \<open>findSep\<close> returns exactly 0 whenever \<open>deltaH \<ge> nu\<close>, and a value of the
  closed interval \<open>[0.001, 0.499]\<close> whenever \<open>deltaH < nu\<close>: for every \<open>nu\<close> and \<open>gamma\<close>,
  in either arithmetic and for every \<open>Math.pow\<close> (the interval is that of the real
  numbers 0.001 and 0.499; the binary64 literals lie inside it).
\<close>

theorem findSep_range:
  "(nu \<le> deltaH \<longrightarrow> findSep A deltaH nu gamma = 0)
   \<and> (deltaH < nu \<longrightarrow>
        0.001 \<le> findSep A deltaH nu gamma \<and> findSep A deltaH nu gamma \<le> 0.499)"
proof -
  obtain lo' hi' where l: "findSepLoop A deltaH nu gamma 60 (lit A 0.001, lit A 0.499) = (lo', hi')"
    by (cases "findSepLoop A deltaH nu gamma 60 (lit A 0.001, lit A 0.499)")
  have r: "fl A lo' = lo'" "fl A hi' = hi'" "lit A 0.001 \<le> lo'" "lo' \<le> hi'" "hi' \<le> lit A 0.499"
    using findSepLoop_range [OF fl_lit fl_lit lit_0001_le_0499 l] by simp_all
  note m = mid_between [OF r(1,2,4)]
  have "1 / 1000 \<le> fdiv A (fadd A lo' hi') 2"
    using m(1) r(3) lit_0001 [of A] by linarith
  moreover have "fdiv A (fadd A lo' hi') 2 \<le> 499 / 1000"
    using m(2) r(5) lit_0499 [of A] by linarith
  ultimately show ?thesis using l by (simp add: findSep_def)
qed

theorem findSep_range_witness:
  "findSep binary64 2 1 (3 / 2) = 0
   \<and> 0.001 \<le> findSep binary64 (4 / 5) 1 (3 / 2) \<and> findSep binary64 (4 / 5) 1 (3 / 2) \<le> 0.499"
  using findSep_range [of 1 2 binary64 "3 / 2"] findSep_range [of 1 "4 / 5" binary64 "3 / 2"]
  by simp

lemma g_exact: "g exact x gamma = (1 - x) powr gamma - x powr gamma"
  by (simp add: g_def exact_def fsub_def fl_def)

lemma g_exact_strict_antimono:
  assumes "0 < gamma" and "0 \<le> x" and "x < y" and "y \<le> 1"
  shows "g exact y gamma < g exact x gamma"
proof -
  have "x powr gamma < y powr gamma"
    using assms by (intro powr_less_mono2) simp_all
  moreover have "(1 - y) powr gamma < (1 - x) powr gamma"
    using assms by (intro powr_less_mono2) simp_all
  ultimately show ?thesis by (simp add: g_exact)
qed

lemma findSepLoop_exact_bracket:
  assumes "0 < nu" and "0 < gamma" and "0 \<le> lo" and "hi \<le> 1"
    and "lo \<le> xs" and "xs \<le> hi" and "nu * g exact xs gamma = deltaH"
    and "findSepLoop exact deltaH nu gamma n (lo, hi) = (lo', hi')"
  shows "lo' \<le> xs \<and> xs \<le> hi' \<and> hi' - lo' = (hi - lo) / 2 ^ n"
  using assms(3-6,8)
proof (induction n arbitrary: lo hi)
  case 0
  then show ?case by simp
next
  case (Suc n)
  define mid where "mid = (lo + hi) / 2"
  have mid: "fdiv exact (fadd exact lo hi) 2 = mid"
    by (simp add: fdiv_def fadd_def fl_def exact_def mid_def)
  have cond: "fmul exact nu (g exact mid gamma) > deltaH \<longleftrightarrow> g exact xs gamma < g exact mid gamma"
    using assms(1) by (simp add: fmul_def fl_def exact_def assms(7) [symmetric])
  have m01: "0 \<le> mid" "mid \<le> 1" "lo \<le> mid" "mid \<le> hi"
    using Suc.prems by (simp_all add: mid_def)
  show ?case
  proof (cases "g exact xs gamma < g exact mid gamma")
    case True
    have "mid \<le> xs"
    proof (rule ccontr)
      assume "\<not> mid \<le> xs"
      then have "xs < mid" by simp
      then have "g exact mid gamma < g exact xs gamma"
        using Suc.prems m01 assms(2) by (intro g_exact_strict_antimono) simp_all
      then show False using True by simp
    qed
    moreover have "findSepLoop exact deltaH nu gamma n (mid, hi) = (lo', hi')"
      using Suc.prems(5) True by (simp add: mid Let_def cond)
    ultimately have "lo' \<le> xs \<and> xs \<le> hi' \<and> hi' - lo' = (hi - mid) / 2 ^ n"
      using Suc.IH [of mid hi] Suc.prems m01 by simp
    then show ?thesis by (simp add: mid_def field_simps)
  next
    case False
    have "xs \<le> mid"
    proof (rule ccontr)
      assume "\<not> xs \<le> mid"
      then have "mid < xs" by simp
      then have "g exact xs gamma < g exact mid gamma"
        using Suc.prems m01 assms(2) by (intro g_exact_strict_antimono) simp_all
      then show False using False by simp
    qed
    moreover have "findSepLoop exact deltaH nu gamma n (lo, mid) = (lo', hi')"
      using Suc.prems(5) False by (simp add: mid Let_def cond)
    ultimately have "lo' \<le> xs \<and> xs \<le> hi' \<and> hi' - lo' = (mid - lo) / 2 ^ n"
      using Suc.IH [of lo mid] Suc.prems m01 by simp
    then show ?thesis by (simp add: mid_def field_simps)
  qed
qed

lemma g_exact_root_exists:
  assumes "0 < nu" and "nu * g exact 0.499 gamma \<le> deltaH" and "deltaH \<le> nu * g exact 0.001 gamma"
  shows "\<exists>x. 0.001 \<le> x \<and> x \<le> 0.499 \<and> nu * g exact x gamma = deltaH"
proof -
  have cont: "continuous_on {0.001..0.499} (\<lambda>x::real. nu * ((1 - x) powr gamma - x powr gamma))"
    by (intro continuous_intros) auto
  have "\<exists>x\<ge>0.001. x \<le> 0.499 \<and> nu * ((1 - x) powr gamma - x powr gamma) = deltaH"
    using assms(2,3) by (intro IVT2' cont) (simp_all add: g_exact)
  then show ?thesis by (auto simp: g_exact)
qed

text \<open>
  Claim C1, as amended: in exact real arithmetic, for \<open>nu > 0\<close>, \<open>gamma \<ge> 1\<close>,
  \<open>deltaH < nu\<close> and \<open>nu * g(0.499) \<le> deltaH \<le> nu * g(0.001)\<close>, the equation
  \<open>nu * g(x) = deltaH\<close> has exactly one solution in \<open>[0.001, 0.499]\<close> and \<open>findSep\<close> returns a
  value within \<open>(0.499 - 0.001) / 2^60\<close> of it.
\<close>

theorem findSep_exact_accuracy:
  assumes "0 < nu" and "1 \<le> gamma" and "deltaH < nu"
    and "nu * g exact 0.499 gamma \<le> deltaH" and "deltaH \<le> nu * g exact 0.001 gamma"
  shows "\<exists>xs. 0.001 \<le> xs \<and> xs \<le> 0.499 \<and> nu * g exact xs gamma = deltaH
           \<and> (\<forall>y. 0.001 \<le> y \<and> y \<le> 0.499 \<and> nu * g exact y gamma = deltaH \<longrightarrow> y = xs)
           \<and> \<bar>findSep exact deltaH nu gamma - xs\<bar> \<le> (0.499 - 0.001) / 2 ^ 60"
proof -
  have gam: "0 < gamma" using assms(2) by simp
  obtain xs where xs: "0.001 \<le> xs" "xs \<le> 0.499" "nu * g exact xs gamma = deltaH"
    using g_exact_root_exists [OF assms(1,4,5)] by blast
  have uniq: "y = xs" if y: "0.001 \<le> y \<and> y \<le> 0.499 \<and> nu * g exact y gamma = deltaH" for y
  proof (rule ccontr)
    assume "y \<noteq> xs"
    then consider "y < xs" | "xs < y" by linarith
    then have "g exact y gamma \<noteq> g exact xs gamma"
    proof cases
      case 1
      then have "g exact xs gamma < g exact y gamma"
        using y xs gam by (intro g_exact_strict_antimono) simp_all
      then show ?thesis by simp
    next
      case 2
      then have "g exact y gamma < g exact xs gamma"
        using y xs gam by (intro g_exact_strict_antimono) simp_all
      then show ?thesis by simp
    qed
    moreover have "nu * g exact y gamma = nu * g exact xs gamma" using y xs(3) by simp
    ultimately show False using assms(1) by simp
  qed
  obtain lo' hi' where l: "findSepLoop exact deltaH nu gamma 60 (0.001, 0.499) = (lo', hi')"
    by (cases "findSepLoop exact deltaH nu gamma 60 (0.001, 0.499)")
  have b: "lo' \<le> xs \<and> xs \<le> hi' \<and> hi' - lo' = (0.499 - 0.001) / 2 ^ 60"
    using xs by (intro findSepLoop_exact_bracket [OF assms(1) gam _ _ _ _ xs(3) l]) simp_all
  have f: "findSep exact deltaH nu gamma = (lo' + hi') / 2"
    using assms(3) l by (simp add: findSep_def lit_def fl_def exact_def fdiv_def fadd_def)
  have b1: "lo' \<le> xs" and b2: "xs \<le> hi'"
    and b3: "hi' - lo' = (0.499 - 0.001) / 2 ^ 60" using b by blast+
  have "\<bar>(lo' + hi') / 2 - xs\<bar> \<le> hi' - lo'"
    using b1 b2 by argo
  then have "\<bar>findSep exact deltaH nu gamma - xs\<bar> \<le> (0.499 - 0.001) / 2 ^ 60"
    unfolding f b3 .
  then show ?thesis using xs uniq by blast
qed

lemma rnd64_not_near_third:
  "\<not> \<bar>rnd64 z - 1 / 3\<bar> \<le> (0.499 - 0.001) / 2 ^ 60"
proof
  define r where "r = rnd64 z"
  assume "\<bar>rnd64 z - 1 / 3\<bar> \<le> (0.499 - 0.001) / 2 ^ 60"
  then have near: "\<bar>r - 1 / 3\<bar> \<le> 498 / (1000 * 2 ^ 60)" by (simp add: r_def)
  have "498 / (1000 * 2 ^ 60) < (1::real) / 100" by simp
  then have rng: "1 / 4 \<le> r" "r < 1 / 2" using near by linarith+
  have fx: "rnd64 r = r" unfolding r_def by (rule rnd64_idem)
  define M where "M = round_even (r / 2 powi (- 2 - 52))"
  have "rnd64 r = of_int M * 2 powi (- 2 - 52)"
    unfolding M_def using rng by (intro rnd64_eval) (simp_all add: power_int_minus)
  then have r: "r = of_int M / 2 ^ 54" unfolding fx by (simp add: power_int_minus)
  have "\<bar>3 * r - 1\<bar> \<le> 3 * (498 / (1000 * 2 ^ 60))" using near by linarith
  then have "\<bar>3 * of_int M - 2 ^ 54\<bar> \<le> 3 * (498 / (1000 * 2 ^ 60)) * (2 ^ 54 :: real)"
    unfolding r by (simp add: abs_le_iff field_simps)
  also have "\<dots> < 1" by simp
  finally have "\<bar>real_of_int (3 * M - 2 ^ 54)\<bar> < 1" by simp
  then have "\<bar>3 * M - 2 ^ 54\<bar> < 1" by linarith
  then have "3 * M = 18014398509481984" by simp
  then show False by presburger
qed

text \<open>
  Claim C1, as stated, fails on the Numbers the script computes with: for \<open>deltaH = 1\<close>,
  \<open>nu = 3\<close>, \<open>gamma = 1\<close> the hypotheses hold and the solution is \<open>1/3\<close>, but no binary64
  number is within \<open>(0.499 - 0.001) / 2^60\<close> of \<open>1/3\<close> (the numbers of that binade are
  \<open>2^-54\<close> apart), so the value \<open>findSep\<close> returns is not.
\<close>

theorem findSep_binary64_counterexample:
  "(0::real) < 3 \<and> (1::real) \<le> 1 \<and> (1::real) < 3
   \<and> 3 * g exact 0.499 1 \<le> 1 \<and> 1 \<le> 3 * g exact 0.001 1
   \<and> 0.001 \<le> (1 / 3 :: real) \<and> (1 / 3 :: real) \<le> 0.499 \<and> 3 * g exact (1 / 3) 1 = 1
   \<and> \<not> \<bar>findSep binary64 1 3 1 - 1 / 3\<bar> \<le> (0.499 - 0.001) / 2 ^ 60"
proof -
  obtain lo' hi' where l: "findSepLoop binary64 1 3 1 (60::nat) (lit binary64 0.001, lit binary64 0.499) = (lo', hi')"
    by (cases "findSepLoop binary64 1 3 1 (60::nat) (lit binary64 0.001, lit binary64 0.499)")
  have "findSep binary64 1 3 1 = rnd64 (fadd binary64 lo' hi' / 2)"
    using l by (simp add: findSep_def fdiv_def fl_def binary64_def)
  then have "\<not> \<bar>findSep binary64 1 3 1 - 1 / 3\<bar> \<le> (0.499 - 0.001) / 2 ^ 60"
    using rnd64_not_near_third [of "fadd binary64 lo' hi' / 2"] by simp
  then show ?thesis by (simp add: g_exact)
qed

theorem findSep_exact_accuracy_witness:
  "\<bar>findSep exact 1 3 1 - 1 / 3\<bar> \<le> (0.499 - 0.001) / 2 ^ 60"
proof -
  obtain xs where xs: "\<forall>y. 0.001 \<le> y \<and> y \<le> 0.499 \<and> 3 * g exact y 1 = 1 \<longrightarrow> y = xs"
      "\<bar>findSep exact 1 3 1 - xs\<bar> \<le> (0.499 - 0.001) / 2 ^ 60"
    using findSep_exact_accuracy [of 3 1 1] by (auto simp: g_exact)
  have "0.001 \<le> (1 / 3 :: real) \<and> (1 / 3 :: real) \<le> 0.499 \<and> 3 * g exact (1 / 3) 1 = 1"
    by (simp add: g_exact)
  then have e: "xs = 1 / 3" using xs(1) by blast
  show ?thesis using xs(2) unfolding e .
qed

section \<open>Properties of the replicator update\<close>

lemma rnd64_pos: assumes "0 < x" shows "0 < rnd64 x"
proof -
  have x0: "x \<noteq> 0" and ax: "\<bar>x\<bar> = x" using assms by simp_all
  have "2 powi binade x \<le> x" "x < 2 powi (binade x + 1)"
    using binade_bounds [OF x0] by (simp_all add: ax)
  then have "2 powi binade x \<le> rnd64 x" by (rule rnd64_pos_bounds(1))
  then show ?thesis using two_powi_pos [of "binade x"] by linarith
qed

lemma fl_pos: "0 < x \<Longrightarrow> 0 < fl A x"
  by (cases "mode A") (simp_all add: fl_def rnd64_pos)

lemma foldl_fadd_lower:
  "c \<le> acc \<Longrightarrow> fl A c = c \<Longrightarrow> \<forall>v\<in>set vs. 0 \<le> v \<Longrightarrow> c \<le> foldl (fadd A) acc vs"
proof (induction vs arbitrary: acc)
  case Nil
  then show ?case by simp
next
  case (Cons v vs)
  have "fl A c \<le> fl A (acc + v)" using Cons.prems by (intro fl_mono) simp
  then have "c \<le> fadd A acc v" using Cons.prems(2) by (simp add: fadd_def)
  then show ?case using Cons.IH [of "fadd A acc v"] Cons.prems by simp
qed

lemma renormalize_positive:
  assumes "vs \<noteq> []" and "0 < c" and "fl A c = c" and "\<forall>v\<in>set vs. c \<le> v"
  shows "length (renormalize A vs) = length vs" and "\<forall>y\<in>set (renormalize A vs). 0 < y"
proof -
  obtain v vs' where vs: "vs = v # vs'" using assms(1) by (cases vs) auto
  have "fl A c \<le> fl A (0 + v)" using assms(4) vs by (intro fl_mono) simp
  then have "c \<le> fadd A 0 v" using assms(3) by (simp add: fadd_def)
  moreover have "\<forall>w\<in>set vs'. 0 \<le> w" using assms(2,4) vs by fastforce
  ultimately have "c \<le> foldl (fadd A) (fadd A 0 v) vs'"
    using assms(3) by (intro foldl_fadd_lower)
  then have s: "0 < foldl (fadd A) 0 vs" using assms(2) vs by simp
  show "length (renormalize A vs) = length vs" by (simp add: renormalize_def Let_def)
  show "\<forall>y\<in>set (renormalize A vs). 0 < y"
  proof
    fix y assume "y \<in> set (renormalize A vs)"
    then obtain w where w: "w \<in> set vs" "y = fdiv A w (foldl (fadd A) 0 vs)"
      by (auto simp: renormalize_def Let_def)
    have "0 < w" using assms(2,4) w(1) by fastforce
    then have "0 < w / foldl (fadd A) 0 vs" using s by simp
    then show "0 < y" unfolding w(2) fdiv_def by (rule fl_pos)
  qed
qed

lemma foldl_plus_sum_list: "foldl (+) a xs = a + (sum_list xs :: real)"
  by (induction xs arbitrary: a) simp_all

lemma sum_list_map_divide: "sum_list (map (\<lambda>v. v / c) xs) = (sum_list xs :: real) / c"
  by (induction xs) (simp_all add: add_divide_distrib)

lemma renormalize_exact_sum:
  assumes "mode A = Exact" and "vs \<noteq> []" and "\<forall>v\<in>set vs. 0 < v"
  shows "sum_list (renormalize A vs) = 1"
proof -
  have fa: "fadd A = (+)" using assms(1) by (intro ext) (simp add: fadd_def fl_def)
  have fd: "fdiv A = (/)" using assms(1) by (intro ext) (simp add: fdiv_def fl_def)
  obtain v vs' where vs: "vs = v # vs'" using assms(2) by (cases vs) auto
  have "0 \<le> sum_list vs'"
    using assms(3) vs by (intro sum_list_nonneg) (simp add: less_imp_le)
  moreover have "0 < v" using assms(3) vs by simp
  ultimately have "0 < sum_list vs" using vs by simp
  moreover have "sum_list (map (\<lambda>v. v / sum_list vs) vs) = sum_list vs / sum_list vs"
    by (rule sum_list_map_divide)
  ultimately have "sum_list (map (\<lambda>v. v / (0 + sum_list vs)) vs) = 1" by simp
  then show ?thesis
    unfolding renormalize_def Let_def fa fd foldl_plus_sum_list .
qed


lemma renormalize_clamped:
  assumes "vs \<noteq> []" and "\<forall>v\<in>set vs. lit A (1 / 10 ^ 4) \<le> v"
  shows "length (renormalize A vs) = length vs"
    and "\<forall>y\<in>set (renormalize A vs). 0 < y"
    and "mode A = Exact \<longrightarrow> sum_list (renormalize A vs) = 1"
proof -
  have d: "0 < lit A (1 / 10 ^ 4)" unfolding lit_def by (rule fl_pos) simp
  show "length (renormalize A vs) = length vs"
    and "\<forall>y\<in>set (renormalize A vs). 0 < y"
    using renormalize_positive [OF assms(1) d fl_lit assms(2)] by blast+
  have "\<forall>v\<in>set vs. 0 < v" using assms(2) d by fastforce
  then show "mode A = Exact \<longrightarrow> sum_list (renormalize A vs) = 1"
    using renormalize_exact_sum [OF _ assms(1)] by blast
qed

text \<open>
  Claim C4, as amended: for every non-empty share vector with positive entries (no longer
  than \<open>Hvals\<close>, and than the noise vector) and every step size, one iteration of the
  update loop, deterministic or with noise, yields a vector of the same length whose
  entries are all strictly positive, in either arithmetic and for every \<open>Math.pow\<close>; in
  exact real arithmetic the entries sum to exactly 1.
\<close>

theorem replicator_step_normalized:
  assumes "x \<noteq> []" and "\<forall>xi\<in>set x. 0 < xi" and "0 < dt"
    and "length x \<le> length Hvals" and "length x \<le> length noise"
  shows "(\<exists>y. detStep A Hvals nu gamma dt x = Some y \<and> length y = length x
            \<and> (\<forall>v\<in>set y. 0 < v) \<and> (mode A = Exact \<longrightarrow> sum_list y = 1))
       \<and> (\<exists>y. noisyStep A Hvals nu gamma dt noise x = Some y \<and> length y = length x
            \<and> (\<forall>v\<in>set y. 0 < v) \<and> (mode A = Exact \<longrightarrow> sum_list y = 1))"
proof -
  define u where "u = fitness A Hvals nu gamma x"
  define ubar where "ubar = meanFitness A x u"
  define dx where "dx = map (\<lambda>(xi, ui). fmul A xi (fsub A ui ubar)) (zip x u)"
  define x1 where "x1 = map (\<lambda>(xi, dxi). max (lit A (1 / 10 ^ 4)) (fadd A xi (fmul A dxi dt))) (zip x dx)"
  define x2 where "x2 = map (\<lambda>(xi, dxi, ni). max (lit A (1 / 10 ^ 4)) (fadd A (fadd A xi (fmul A dxi dt)) ni))
                    (zip x (zip dx noise))"
  have lu: "length u = length x" using assms(4) by (simp add: u_def fitness_def)
  have ldx: "length dx = length x" using lu by (simp add: dx_def)
  have l1: "length x1 = length x" using ldx by (simp add: x1_def)
  have l2: "length x2 = length x" using ldx assms(5) by (simp add: x2_def)
  have n1: "x1 \<noteq> []" and n2: "x2 \<noteq> []" using l1 l2 assms(1) by auto
  have c1: "\<forall>v\<in>set x1. lit A (1 / 10 ^ 4) \<le> v" by (auto simp: x1_def)
  have c2: "\<forall>v\<in>set x2. lit A (1 / 10 ^ 4) \<le> v" by (auto simp: x2_def)
  have d: "detStep A Hvals nu gamma dt x = Some (renormalize A x1)"
    using assms(4) by (simp add: detStep_def Let_def u_def ubar_def dx_def x1_def)
  have n: "noisyStep A Hvals nu gamma dt noise x = Some (renormalize A x2)"
    using assms(4,5) by (simp add: noisyStep_def Let_def u_def ubar_def dx_def x2_def)
  show ?thesis
    unfolding d n using renormalize_clamped [OF n1 c1] renormalize_clamped [OF n2 c2] l1 l2
    by simp
qed

theorem replicator_step_normalized_witness:
  "(\<exists>y. detStep exact [2, 1] 1 1 (1 / 10) [1 / 2, 1 / 2] = Some y \<and> length y = 2
            \<and> (\<forall>v\<in>set y. 0 < v) \<and> sum_list y = 1)
       \<and> (\<exists>y. noisyStep exact [2, 1] 1 1 (1 / 10) [0, 1 / 100] [1 / 2, 1 / 2] = Some y \<and> length y = 2
            \<and> (\<forall>v\<in>set y. 0 < v) \<and> sum_list y = 1)"
  using replicator_step_normalized [of "[1 / 2, 1 / 2]" "1 / 10" "[2, 1]" "[0, 1 / 100]" exact 1 1]
  by (simp add: exact_def numeral_2_eq_2)

lemma fl_binary64: "fl binary64 = rnd64"
  by (intro ext) (simp add: fl_def binary64_def)

lemma Math_pow_binary64: "Math_pow binary64 x y = rnd64 (x powr y)"
  by (simp add: binary64_def)

lemma rnd64_compute:
  assumes "x = v" and "2 powi e \<le> \<bar>v\<bar>" and "\<bar>v\<bar> < 2 powi (e + 1)"
    and "round_even (v / 2 powi (e - 52)) = M" and "of_int M * 2 powi (e - 52) = y"
  shows "rnd64 x = y"
  using rnd64_eval [OF assms(2,3)] assms(1,4,5) by simp

lemma powr_three_halves:
  assumes "0 < (r::real)"
  shows "(r * r) powr (3 / 2) = r * r * r"
proof -
  have "(r * r) powr (3 / 2) = (r powr 2) powr (3 / 2)"
    using assms by (simp add: power2_eq_square)
  also have "\<dots> = r powr 3" by (simp add: powr_powr)
  also have "\<dots> = r * r * r" using assms by (simp add: power3_eq_cube)
  finally show ?thesis .
qed

text \<open>
  One iteration of the deterministic loop in binary64, with the constants of the figure,
  on the share vector \<open>[1/64, 9/16, 1/64, 25/64, 1/64]\<close>: first the literals, the three
  powers (which are exact) and then every rounded operation of the iteration in turn.
\<close>

lemma mc_r0: "lit binary64 2 = 2"
  unfolding lit_def fl_binary64
  by (rule rnd64_compute [where v = "2" and e = "1" and M = "4503599627370496"])
     (simp_all add: round_even_def power_int_minus)

lemma mc_r1: "lit binary64 (9 / 5) = (8106479329266893 / 4503599627370496)"
  unfolding lit_def fl_binary64
  by (rule rnd64_compute [where v = "(9 / 5)" and e = "0" and M = "8106479329266893"])
     (simp_all add: round_even_def power_int_minus)

lemma mc_r2: "lit binary64 (3 / 2) = (3 / 2)"
  unfolding lit_def fl_binary64
  by (rule rnd64_compute [where v = "(3 / 2)" and e = "0" and M = "6755399441055744"])
     (simp_all add: round_even_def power_int_minus)

lemma mc_r3: "lit binary64 (6 / 5) = (5404319552844595 / 4503599627370496)"
  unfolding lit_def fl_binary64
  by (rule rnd64_compute [where v = "(6 / 5)" and e = "0" and M = "5404319552844595"])
     (simp_all add: round_even_def power_int_minus)

lemma mc_r4: "lit binary64 (4 / 5) = (3602879701896397 / 4503599627370496)"
  unfolding lit_def fl_binary64
  by (rule rnd64_compute [where v = "(4 / 5)" and e = "-1" and M = "7205759403792794"])
     (simp_all add: round_even_def power_int_minus)

lemma mc_r5: "lit binary64 (1 / 10) = (3602879701896397 / 36028797018963968)"
  unfolding lit_def fl_binary64
  by (rule rnd64_compute [where v = "(1 / 10)" and e = "-4" and M = "7205759403792794"])
     (simp_all add: round_even_def power_int_minus)

lemma mc_r6: "lit binary64 (1 / 10000) = (7378697629483821 / 73786976294838206464)"
  unfolding lit_def fl_binary64
  by (rule rnd64_compute [where v = "(1 / 10000)" and e = "-14" and M = "7378697629483821"])
     (simp_all add: round_even_def power_int_minus)

lemma mc_p0: "Math_pow binary64 (1 / 64) (3 / 2) = (1 / 512)"
proof -
  have a: "((1 / 8) * (1 / 8) :: real) = (1 / 64)" by simp
  have b: "((1 / 64) * (1 / 8) :: real) = (1 / 512)" by simp
  have "(0::real) < (1 / 8)" by simp
  then have "((1 / 64)::real) powr (3 / 2) = (1 / 512)"
    using powr_three_halves [of "(1 / 8)"] unfolding a b by blast
  then have p: "((1 / 64)::real) powr (3 / 2) = (1 / 512)" .
  have r: "rnd64 (1 / 512) = (1 / 512)"
    using rnd64_dyadic [of 1 "-9"] by (simp add: power_int_minus)
  show ?thesis unfolding Math_pow_binary64 p by (rule r)
qed

lemma mc_p1: "Math_pow binary64 (9 / 16) (3 / 2) = (27 / 64)"
proof -
  have a: "((3 / 4) * (3 / 4) :: real) = (9 / 16)" by simp
  have b: "((9 / 16) * (3 / 4) :: real) = (27 / 64)" by simp
  have "(0::real) < (3 / 4)" by simp
  then have "((9 / 16)::real) powr (3 / 2) = (27 / 64)"
    using powr_three_halves [of "(3 / 4)"] unfolding a b by blast
  then have p: "((9 / 16)::real) powr (3 / 2) = (27 / 64)" .
  have r: "rnd64 (27 / 64) = (27 / 64)"
    using rnd64_dyadic [of 27 "-6"] by (simp add: power_int_minus)
  show ?thesis unfolding Math_pow_binary64 p by (rule r)
qed

lemma mc_p2: "Math_pow binary64 (25 / 64) (3 / 2) = (125 / 512)"
proof -
  have a: "((5 / 8) * (5 / 8) :: real) = (25 / 64)" by simp
  have b: "((25 / 64) * (5 / 8) :: real) = (125 / 512)" by simp
  have "(0::real) < (5 / 8)" by simp
  then have "((25 / 64)::real) powr (3 / 2) = (125 / 512)"
    using powr_three_halves [of "(5 / 8)"] unfolding a b by blast
  then have p: "((25 / 64)::real) powr (3 / 2) = (125 / 512)" .
  have r: "rnd64 (125 / 512) = (125 / 512)"
    using rnd64_dyadic [of 125 "-9"] by (simp add: power_int_minus)
  show ?thesis unfolding Math_pow_binary64 p by (rule r)
qed

lemma mc_r7: "fmul binary64 (5404319552844595 / 4503599627370496) (1 / 512) = (5404319552844595 / 2305843009213693952)"
  unfolding fmul_def fl_binary64
  by (rule rnd64_compute [where v = "(5404319552844595 / 2305843009213693952)" and e = "-9" and M = "5404319552844595"])
     (simp_all add: round_even_def power_int_minus)

lemma mc_r8: "fadd binary64 2 (5404319552844595 / 2305843009213693952) = (4508877283183821 / 2251799813685248)"
  unfolding fadd_def fl_binary64
  by (rule rnd64_compute [where v = "(4617090337980232499 / 2305843009213693952)" and e = "1" and M = "4508877283183821"])
     (simp_all add: round_even_def power_int_minus)

lemma mc_r9: "fmul binary64 (5404319552844595 / 4503599627370496) (27 / 64) = (4559894622712627 / 9007199254740992)"
  unfolding fmul_def fl_binary64
  by (rule rnd64_compute [where v = "(145916627926804065 / 288230376151711744)" and e = "-1" and M = "4559894622712627"])
     (simp_all add: round_even_def power_int_minus)

lemma mc_r10: "fadd binary64 (8106479329266893 / 4503599627370496) (4559894622712627 / 9007199254740992) = (5193213320311603 / 2251799813685248)"
  unfolding fadd_def fl_binary64
  by (rule rnd64_compute [where v = "(20772853281246413 / 9007199254740992)" and e = "1" and M = "5193213320311603"])
     (simp_all add: round_even_def power_int_minus)

lemma mc_r11: "fadd binary64 (3 / 2) (5404319552844595 / 2305843009213693952) = (3382977376341197 / 2251799813685248)"
  unfolding fadd_def fl_binary64
  by (rule rnd64_compute [where v = "(3464168833373385523 / 2305843009213693952)" and e = "0" and M = "6765954752682394"])
     (simp_all add: round_even_def power_int_minus)

lemma mc_r12: "fmul binary64 (5404319552844595 / 4503599627370496) (125 / 512) = (75 / 256)"
  unfolding fmul_def fl_binary64
  by (rule rnd64_compute [where v = "(675539944105574375 / 2305843009213693952)" and e = "-2" and M = "5277655813324800"])
     (simp_all add: round_even_def power_int_minus)

lemma mc_r13: "fadd binary64 (5404319552844595 / 4503599627370496) (75 / 256) = (6723733506175795 / 4503599627370496)"
  unfolding fadd_def fl_binary64
  by (rule rnd64_compute [where v = "(6723733506175795 / 4503599627370496)" and e = "0" and M = "6723733506175795"])
     (simp_all add: round_even_def power_int_minus)

lemma mc_r14: "fadd binary64 (3602879701896397 / 4503599627370496) (5404319552844595 / 2305843009213693952) = (7226870027046093 / 9007199254740992)"
  unfolding fadd_def fl_binary64
  by (rule rnd64_compute [where v = "(1850078726923799859 / 2305843009213693952)" and e = "-1" and M = "7226870027046093"])
     (simp_all add: round_even_def power_int_minus)

lemma mc_r15: "fmul binary64 (1 / 64) (4508877283183821 / 2251799813685248) = (4508877283183821 / 144115188075855872)"
  unfolding fmul_def fl_binary64
  by (rule rnd64_compute [where v = "(4508877283183821 / 144115188075855872)" and e = "-5" and M = "4508877283183821"])
     (simp_all add: round_even_def power_int_minus)

lemma mc_r16: "fadd binary64 0 (4508877283183821 / 144115188075855872) = (4508877283183821 / 144115188075855872)"
  unfolding fadd_def fl_binary64
  by (rule rnd64_compute [where v = "(4508877283183821 / 144115188075855872)" and e = "-5" and M = "4508877283183821"])
     (simp_all add: round_even_def power_int_minus)

lemma mc_r17: "fmul binary64 (9 / 16) (5193213320311603 / 2251799813685248) = (5842364985350553 / 4503599627370496)"
  unfolding fmul_def fl_binary64
  by (rule rnd64_compute [where v = "(46738919882804427 / 36028797018963968)" and e = "0" and M = "5842364985350553"])
     (simp_all add: round_even_def power_int_minus)

lemma mc_r18: "fadd binary64 (4508877283183821 / 144115188075855872) (5842364985350553 / 4503599627370496) = (5983267400450047 / 4503599627370496)"
  unfolding fadd_def fl_binary64
  by (rule rnd64_compute [where v = "(191464556814401517 / 144115188075855872)" and e = "0" and M = "5983267400450047"])
     (simp_all add: round_even_def power_int_minus)

lemma mc_r19: "fmul binary64 (1 / 64) (3382977376341197 / 2251799813685248) = (3382977376341197 / 144115188075855872)"
  unfolding fmul_def fl_binary64
  by (rule rnd64_compute [where v = "(3382977376341197 / 144115188075855872)" and e = "-6" and M = "6765954752682394"])
     (simp_all add: round_even_def power_int_minus)

lemma mc_r20: "fadd binary64 (5983267400450047 / 4503599627370496) (3382977376341197 / 144115188075855872) = (6088985443460709 / 4503599627370496)"
  unfolding fadd_def fl_binary64
  by (rule rnd64_compute [where v = "(194847534190742701 / 144115188075855872)" and e = "0" and M = "6088985443460709"])
     (simp_all add: round_even_def power_int_minus)

lemma mc_r21: "fmul binary64 (25 / 64) (6723733506175795 / 4503599627370496) = (9555 / 16384)"
  unfolding fmul_def fl_binary64
  by (rule rnd64_compute [where v = "(168093337654394875 / 288230376151711744)" and e = "-1" and M = "5252916801699840"])
     (simp_all add: round_even_def power_int_minus)

lemma mc_r22: "fadd binary64 (6088985443460709 / 4503599627370496) (9555 / 16384) = (8715443844310629 / 4503599627370496)"
  unfolding fadd_def fl_binary64
  by (rule rnd64_compute [where v = "(8715443844310629 / 4503599627370496)" and e = "0" and M = "8715443844310629"])
     (simp_all add: round_even_def power_int_minus)

lemma mc_r23: "fmul binary64 (1 / 64) (7226870027046093 / 9007199254740992) = (7226870027046093 / 576460752303423488)"
  unfolding fmul_def fl_binary64
  by (rule rnd64_compute [where v = "(7226870027046093 / 576460752303423488)" and e = "-7" and M = "7226870027046093"])
     (simp_all add: round_even_def power_int_minus)

lemma mc_r24: "fadd binary64 (8715443844310629 / 4503599627370496) (7226870027046093 / 576460752303423488) = (8771903766396927 / 4503599627370496)"
  unfolding fadd_def fl_binary64
  by (rule rnd64_compute [where v = "(1122803682098806605 / 576460752303423488)" and e = "0" and M = "8771903766396927"])
     (simp_all add: round_even_def power_int_minus)

lemma mc_r25: "fsub binary64 (4508877283183821 / 2251799813685248) (8771903766396927 / 4503599627370496) = (245850799970715 / 4503599627370496)"
  unfolding fsub_def fl_binary64
  by (rule rnd64_compute [where v = "(245850799970715 / 4503599627370496)" and e = "-5" and M = "7867225599062880"])
     (simp_all add: round_even_def power_int_minus)

lemma mc_r26: "fmul binary64 (1 / 64) (245850799970715 / 4503599627370496) = (245850799970715 / 288230376151711744)"
  unfolding fmul_def fl_binary64
  by (rule rnd64_compute [where v = "(245850799970715 / 288230376151711744)" and e = "-11" and M = "7867225599062880"])
     (simp_all add: round_even_def power_int_minus)

lemma mc_r27: "fsub binary64 (5193213320311603 / 2251799813685248) (8771903766396927 / 4503599627370496) = (1614522874226279 / 4503599627370496)"
  unfolding fsub_def fl_binary64
  by (rule rnd64_compute [where v = "(1614522874226279 / 4503599627370496)" and e = "-2" and M = "6458091496905116"])
     (simp_all add: round_even_def power_int_minus)

lemma mc_r28: "fmul binary64 (9 / 16) (1614522874226279 / 4503599627370496) = (454084558376141 / 2251799813685248)"
  unfolding fmul_def fl_binary64
  by (rule rnd64_compute [where v = "(14530705868036511 / 72057594037927936)" and e = "-3" and M = "7265352934018256"])
     (simp_all add: round_even_def power_int_minus)

lemma mc_r29: "fsub binary64 (3382977376341197 / 2251799813685248) (8771903766396927 / 4503599627370496) = (- (2005949013714533 / 4503599627370496))"
  unfolding fsub_def fl_binary64
  by (rule rnd64_compute [where v = "(- (2005949013714533 / 4503599627370496))" and e = "-2" and M = "-8023796054858132"])
     (simp_all add: round_even_def power_int_minus)

lemma mc_r30: "fmul binary64 (1 / 64) (- (2005949013714533 / 4503599627370496)) = (- (2005949013714533 / 288230376151711744))"
  unfolding fmul_def fl_binary64
  by (rule rnd64_compute [where v = "(- (2005949013714533 / 288230376151711744))" and e = "-8" and M = "-8023796054858132"])
     (simp_all add: round_even_def power_int_minus)

lemma mc_r31: "fsub binary64 (6723733506175795 / 4503599627370496) (8771903766396927 / 4503599627370496) = (- (512042565055283 / 1125899906842624))"
  unfolding fsub_def fl_binary64
  by (rule rnd64_compute [where v = "(- (512042565055283 / 1125899906842624))" and e = "-2" and M = "-8192681040884528"])
     (simp_all add: round_even_def power_int_minus)

lemma mc_r32: "fmul binary64 (25 / 64) (- (512042565055283 / 1125899906842624)) = (- (3200266031595519 / 18014398509481984))"
  unfolding fmul_def fl_binary64
  by (rule rnd64_compute [where v = "(- (12801064126382075 / 72057594037927936))" and e = "-3" and M = "-6400532063191038"])
     (simp_all add: round_even_def power_int_minus)

lemma mc_r33: "fsub binary64 (7226870027046093 / 9007199254740992) (8771903766396927 / 4503599627370496) = (- (644808594109235 / 562949953421312))"
  unfolding fsub_def fl_binary64
  by (rule rnd64_compute [where v = "(- (10316937505747761 / 9007199254740992))" and e = "0" and M = "-5158468752873880"])
     (simp_all add: round_even_def power_int_minus)

lemma mc_r34: "fmul binary64 (1 / 64) (- (644808594109235 / 562949953421312)) = (- (644808594109235 / 36028797018963968))"
  unfolding fmul_def fl_binary64
  by (rule rnd64_compute [where v = "(- (644808594109235 / 36028797018963968))" and e = "-6" and M = "-5158468752873880"])
     (simp_all add: round_even_def power_int_minus)

lemma mc_r35: "fmul binary64 (245850799970715 / 288230376151711744) (3602879701896397 / 36028797018963968) = (49170159994143 / 576460752303423488)"
  unfolding fmul_def fl_binary64
  by (rule rnd64_compute [where v = "(885770856909480387497564013855 / 10384593717069655257060992658440192)" and e = "-14" and M = "6293780479250304"])
     (simp_all add: round_even_def power_int_minus)

lemma mc_r36: "fadd binary64 (1 / 64) (49170159994143 / 576460752303423488) = (283011544210473 / 18014398509481984)"
  unfolding fadd_def fl_binary64
  by (rule rnd64_compute [where v = "(9056369414735135 / 576460752303423488)" and e = "-6" and M = "4528184707367568"])
     (simp_all add: round_even_def power_int_minus)

lemma mc_r37: "fmul binary64 (454084558376141 / 2251799813685248) (3602879701896397 / 36028797018963968) = (5812282347214605 / 288230376151711744)"
  unfolding fmul_def fl_binary64
  by (rule rnd64_compute [where v = "(1636012038317987967488538663977 / 81129638414606681695789005144064)" and e = "-6" and M = "5812282347214605"])
     (simp_all add: round_even_def power_int_minus)

lemma mc_r38: "fadd binary64 (9 / 16) (5812282347214605 / 288230376151711744) = (656022925517783 / 1125899906842624)"
  unfolding fadd_def fl_binary64
  by (rule rnd64_compute [where v = "(167941868932552461 / 288230376151711744)" and e = "-1" and M = "5248183404142264"])
     (simp_all add: round_even_def power_int_minus)

lemma mc_r39: "fmul binary64 (- (2005949013714533 / 288230376151711744)) (3602879701896397 / 36028797018963968) = (- (3209518421943253 / 4611686018427387904))"
  unfolding fmul_def fl_binary64
  by (rule rnd64_compute [where v = "(- (7227192984551188232441299237601 / 10384593717069655257060992658440192))" and e = "-11" and M = "-6419036843886506"])
     (simp_all add: round_even_def power_int_minus)

lemma mc_r40: "fadd binary64 (1 / 64) (- (3209518421943253 / 4611686018427387904)) = (8606009451998085 / 576460752303423488)"
  unfolding fadd_def fl_binary64
  by (rule rnd64_compute [where v = "(68848075615984683 / 4611686018427387904)" and e = "-7" and M = "8606009451998085"])
     (simp_all add: round_even_def power_int_minus)

lemma mc_r41: "fmul binary64 (- (3200266031595519 / 18014398509481984)) (3602879701896397 / 36028797018963968) = (- (5120425650552831 / 288230376151711744))"
  unfolding fmul_def fl_binary64
  by (rule rnd64_compute [where v = "(- (11530173525904028917583947445043 / 649037107316853453566312041152512))" and e = "-6" and M = "-5120425650552831"])
     (simp_all add: round_even_def power_int_minus)

lemma mc_r42: "fadd binary64 (25 / 64) (- (5120425650552831 / 288230376151711744)) = (97743 / 262144)"
  unfolding fadd_def fl_binary64
  by (rule rnd64_compute [where v = "(107469565033709569 / 288230376151711744)" and e = "-2" and M = "6716847814606848"])
     (simp_all add: round_even_def power_int_minus)

lemma mc_r43: "fmul binary64 (- (644808594109235 / 36028797018963968)) (3602879701896397 / 36028797018963968) = (- (128961718821847 / 72057594037927936))"
  unfolding fmul_def fl_binary64
  by (rule rnd64_compute [where v = "(- (2323167795324515447472470926295 / 1298074214633706907132624082305024))" and e = "-10" and M = "-8253550004598208"])
     (simp_all add: round_even_def power_int_minus)

lemma mc_r44: "fadd binary64 (1 / 64) (- (128961718821847 / 72057594037927936)) = (996938188020777 / 72057594037927936)"
  unfolding fadd_def fl_binary64
  by (rule rnd64_compute [where v = "(996938188020777 / 72057594037927936)" and e = "-7" and M = "7975505504166216"])
     (simp_all add: round_even_def power_int_minus)

lemma mc_r45: "fadd binary64 0 (283011544210473 / 18014398509481984) = (283011544210473 / 18014398509481984)"
  unfolding fadd_def fl_binary64
  by (rule rnd64_compute [where v = "(283011544210473 / 18014398509481984)" and e = "-6" and M = "4528184707367568"])
     (simp_all add: round_even_def power_int_minus)

lemma mc_r46: "fadd binary64 (283011544210473 / 18014398509481984) (656022925517783 / 1125899906842624) = (1347422294061875 / 2251799813685248)"
  unfolding fadd_def fl_binary64
  by (rule rnd64_compute [where v = "(10779378352495001 / 18014398509481984)" and e = "-1" and M = "5389689176247500"])
     (simp_all add: round_even_def power_int_minus)

lemma mc_r47: "fadd binary64 (1347422294061875 / 2251799813685248) (8606009451998085 / 576460752303423488) = (2762079036967485 / 4503599627370496)"
  unfolding fadd_def fl_binary64
  by (rule rnd64_compute [where v = "(353546116731838085 / 576460752303423488)" and e = "-1" and M = "5524158073934970"])
     (simp_all add: round_even_def power_int_minus)

lemma mc_r48: "fadd binary64 (2762079036967485 / 4503599627370496) (97743 / 262144) = (4441290990619197 / 4503599627370496)"
  unfolding fadd_def fl_binary64
  by (rule rnd64_compute [where v = "(4441290990619197 / 4503599627370496)" and e = "-1" and M = "8882581981238394"])
     (simp_all add: round_even_def power_int_minus)

lemma mc_r49: "fadd binary64 (4441290990619197 / 4503599627370496) (996938188020777 / 72057594037927936) = (9007199254740991 / 9007199254740992)"
  unfolding fadd_def fl_binary64
  by (rule rnd64_compute [where v = "(72057594037927929 / 72057594037927936)" and e = "-1" and M = "9007199254740991"])
     (simp_all add: round_even_def power_int_minus)

lemma mc_r50: "fdiv binary64 (283011544210473 / 18014398509481984) (9007199254740991 / 9007199254740992) = (4528184707367569 / 288230376151711744)"
  unfolding fdiv_def fl_binary64
  by (rule rnd64_compute [where v = "(283011544210473 / 18014398509481982)" and e = "-6" and M = "4528184707367569"])
     (simp_all add: round_even_def power_int_minus)

lemma mc_r51: "fdiv binary64 (656022925517783 / 1125899906842624) (9007199254740991 / 9007199254740992) = (5248183404142265 / 9007199254740992)"
  unfolding fdiv_def fl_binary64
  by (rule rnd64_compute [where v = "(5248183404142264 / 9007199254740991)" and e = "-1" and M = "5248183404142265"])
     (simp_all add: round_even_def power_int_minus)

lemma mc_r52: "fdiv binary64 (8606009451998085 / 576460752303423488) (9007199254740991 / 9007199254740992) = (4303004725999043 / 288230376151711744)"
  unfolding fdiv_def fl_binary64
  by (rule rnd64_compute [where v = "(8606009451998085 / 576460752303423424)" and e = "-7" and M = "8606009451998086"])
     (simp_all add: round_even_def power_int_minus)

lemma mc_r53: "fdiv binary64 (97743 / 262144) (9007199254740991 / 9007199254740992) = (6716847814606849 / 18014398509481984)"
  unfolding fdiv_def fl_binary64
  by (rule rnd64_compute [where v = "(3358423907303424 / 9007199254740991)" and e = "-2" and M = "6716847814606849"])
     (simp_all add: round_even_def power_int_minus)

lemma mc_r54: "fdiv binary64 (996938188020777 / 72057594037927936) (9007199254740991 / 9007199254740992) = (7975505504166217 / 576460752303423488)"
  unfolding fdiv_def fl_binary64
  by (rule rnd64_compute [where v = "(996938188020777 / 72057594037927928)" and e = "-7" and M = "7975505504166217"])
     (simp_all add: round_even_def power_int_minus)

lemma mc_r55: "fadd binary64 0 (4528184707367569 / 288230376151711744) = (4528184707367569 / 288230376151711744)"
  unfolding fadd_def fl_binary64
  by (rule rnd64_compute [where v = "(4528184707367569 / 288230376151711744)" and e = "-6" and M = "4528184707367569"])
     (simp_all add: round_even_def power_int_minus)

lemma mc_r56: "fadd binary64 (4528184707367569 / 288230376151711744) (5248183404142265 / 9007199254740992) = (2694844588123751 / 4503599627370496)"
  unfolding fadd_def fl_binary64
  by (rule rnd64_compute [where v = "(172470053639920049 / 288230376151711744)" and e = "-1" and M = "5389689176247502"])
     (simp_all add: round_even_def power_int_minus)

lemma mc_r57: "fadd binary64 (2694844588123751 / 4503599627370496) (4303004725999043 / 288230376151711744) = (1381039518483743 / 2251799813685248)"
  unfolding fadd_def fl_binary64
  by (rule rnd64_compute [where v = "(176773058365919107 / 288230376151711744)" and e = "-1" and M = "5524158073934972"])
     (simp_all add: round_even_def power_int_minus)

lemma mc_r58: "fadd binary64 (1381039518483743 / 2251799813685248) (6716847814606849 / 18014398509481984) = (2220645495309599 / 2251799813685248)"
  unfolding fadd_def fl_binary64
  by (rule rnd64_compute [where v = "(17765163962476793 / 18014398509481984)" and e = "-1" and M = "8882581981238396"])
     (simp_all add: round_even_def power_int_minus)

lemma mc_r59: "fadd binary64 (2220645495309599 / 2251799813685248) (7975505504166217 / 576460752303423488) = (4503599627370497 / 4503599627370496)"
  unfolding fadd_def fl_binary64
  by (rule rnd64_compute [where v = "(576460752303423561 / 576460752303423488)" and e = "0" and M = "4503599627370497"])
     (simp_all add: round_even_def power_int_minus)

lemmas mc_eval = mc_r0
  mc_r1
  mc_r2
  mc_r3
  mc_r4
  mc_r5
  mc_r6
  mc_p0
  mc_p1
  mc_p2
  mc_r7
  mc_r8
  mc_r9
  mc_r10
  mc_r11
  mc_r12
  mc_r13
  mc_r14
  mc_r15
  mc_r16
  mc_r17
  mc_r18
  mc_r19
  mc_r20
  mc_r21
  mc_r22
  mc_r23
  mc_r24
  mc_r25
  mc_r26
  mc_r27
  mc_r28
  mc_r29
  mc_r30
  mc_r31
  mc_r32
  mc_r33
  mc_r34
  mc_r35
  mc_r36
  mc_r37
  mc_r38
  mc_r39
  mc_r40
  mc_r41
  mc_r42
  mc_r43
  mc_r44
  mc_r45
  mc_r46
  mc_r47
  mc_r48
  mc_r49
  mc_r50
  mc_r51
  mc_r52
  mc_r53
  mc_r54
  mc_r55
  mc_r56
  mc_r57
  mc_r58
  mc_r59

lemma mc_detStep_value:
  "mc_detStep binary64 [(1 / 64), (9 / 16), (1 / 64), (25 / 64), (1 / 64)] =
     Some [(4528184707367569 / 288230376151711744), (5248183404142265 / 9007199254740992), (4303004725999043 / 288230376151711744), (6716847814606849 / 18014398509481984), (7975505504166217 / 576460752303423488)]"
  by (simp add: mc_detStep_def detStep_def fitness_def meanFitness_def renormalize_def
      mc_Hvals_def Let_def mc_eval)

text \<open>
  Claim C4, as stated, fails on the Numbers the script computes with: the share vector
  \<open>[1/64, 9/16, 1/64, 25/64, 1/64]\<close> has positive entries that sum to 1, and one iteration
  of the deterministic loop (\<open>dt = 0.1\<close>) yields Numbers whose sum is \<open>1 + 81/2^59\<close>; added
  up from the left in binary64, as \<open>reduce\<close> does, they give \<open>1 + 2^-52\<close>.
\<close>

theorem replicator_step_binary64_counterexample:
  "list_all (\<lambda>xi. 0 < xi) [(1 / 64), (9 / 16), (1 / 64), (25 / 64), (1 / 64)::real]
   \<and> sum_list [(1 / 64), (9 / 16), (1 / 64), (25 / 64), (1 / 64)::real] = 1
   \<and> map_option sum_list (mc_detStep binary64 [(1 / 64), (9 / 16), (1 / 64), (25 / 64), (1 / 64)]) = Some (576460752303423569 / 576460752303423488)
   \<and> (576460752303423569 / 576460752303423488) \<noteq> (1::real)
   \<and> map_option (foldl (fadd binary64) 0) (mc_detStep binary64 [(1 / 64), (9 / 16), (1 / 64), (25 / 64), (1 / 64)]) = Some (4503599627370497 / 4503599627370496)
   \<and> (4503599627370497 / 4503599627370496) \<noteq> (1::real)"
  by (simp add: mc_detStep_value mc_eval)

section \<open>Properties of the entropy estimators\<close>

















































end
